theory Spec2Isabelle
  imports Complex_Main "HOL-Library.Multiset" "HOL-Library.List_Lexorder" "HOL-Library.Product_Lexorder"
begin

section \<open>JavaScript strings\<close>

text \<open>
  A JavaScript string is a sequence of UTF-16 code units; \<open>length\<close>, indexing and the
  regular expressions of \<^verbatim>\<open>server/ocrService.ts\<close> all work on code units. A string is
  therefore a list of code units, each a natural number. \<open>js\<close> writes an ASCII literal.
\<close>

type_synonym jsstring = "nat list"

abbreviation js :: "string \<Rightarrow> jsstring" where
  "js s \<equiv> map of_char s"

text \<open>The character classes of the patterns: \<^verbatim>\<open>\d\<close>, \<^verbatim>\<open>\s\<close>, \<^verbatim>\<open>[-\<endash>\<emdash>]\<close> (hyphen,
  U+2013, U+2014), \<^verbatim>\<open>[ivxlcdm]\<close> under the \<^verbatim>\<open>i\<close> flag, and the line terminators at which
  \<^verbatim>\<open>^\<close> and \<^verbatim>\<open>$\<close> match under the \<^verbatim>\<open>m\<close> flag.\<close>

definition isDigit :: "nat \<Rightarrow> bool" where
  "isDigit c = (48 \<le> c \<and> c \<le> 57)"

definition isLineTerminator :: "nat \<Rightarrow> bool" where
  "isLineTerminator c = (c = 10 \<or> c = 13 \<or> c = 8232 \<or> c = 8233)"

definition isWhiteSpace :: "nat \<Rightarrow> bool" where
  "isWhiteSpace c =
     ((9 \<le> c \<and> c \<le> 13) \<or> c = 32 \<or> c = 160 \<or> c = 5760 \<or> (8192 \<le> c \<and> c \<le> 8202) \<or>
      c = 8232 \<or> c = 8233 \<or> c = 8239 \<or> c = 8287 \<or> c = 12288 \<or> c = 65279)"

definition isDash :: "nat \<Rightarrow> bool" where
  "isDash c = (c = 45 \<or> c = 8211 \<or> c = 8212)"

definition isRomanLetter :: "nat \<Rightarrow> bool" where
  "isRomanLetter c = (c \<in> set (js ''ivxlcdmIVXLCDM''))"

text \<open>\<^verbatim>\<open>String.prototype.trim\<close>: white space and line terminators go from both ends.\<close>

definition trim :: "jsstring \<Rightarrow> jsstring" where
  "trim s = rev (dropWhile isWhiteSpace (rev (dropWhile isWhiteSpace s)))"

text \<open>\<^verbatim>\<open>String.prototype.toUpperCase\<close> on the ASCII letters. The source applies it only to a
  capture that passed \<^verbatim>\<open>/^[ivxlcdm]+$/i\<close> (line 86), where this is the whole mapping.\<close>

definition toUpperCase :: "jsstring \<Rightarrow> jsstring" where
  "toUpperCase s = map (\<lambda>c. if 97 \<le> c \<and> c \<le> 122 then c - 32 else c) s"

definition toLowerChar :: "nat \<Rightarrow> nat" where
  "toLowerChar c = (if 65 \<le> c \<and> c \<le> 90 then c + 32 else c)"

text \<open>\<^verbatim>\<open>parseInt(s, 10)\<close>: leading white space is skipped, a sign is read, then the longest
  run of decimal digits; \<open>None\<close> is \<^verbatim>\<open>NaN\<close>. The value is exact here, while JavaScript
  rounds it to a double above \<open>2^53\<close>. \<^verbatim>\<open>extractPageNumber\<close> only compares the value with 0
  and 10000, where the rounding cannot be seen. \<^verbatim>\<open>reorder\<close> subtracts two such values, where
  it can; the theorem on the order that \<^verbatim>\<open>reorder\<close> produces is about labels whose numbers
  are below 10000, as the extractor writes them.\<close>

definition digitsValue :: "jsstring \<Rightarrow> int" where
  "digitsValue ds = foldl (\<lambda>acc c. 10 * acc + (int c - 48)) 0 ds"

definition parseInt :: "jsstring \<Rightarrow> int option" where
  "parseInt s =
     (let s1 = dropWhile isWhiteSpace s;
          neg = (case s1 of [] \<Rightarrow> False | c # _ \<Rightarrow> c = 45);
          s2 = (case s1 of [] \<Rightarrow> [] | c # r \<Rightarrow> if c = 45 \<or> c = 43 then r else s1);
          ds = takeWhile isDigit s2
      in if ds = [] then None
         else Some (if neg then - digitsValue ds else digitsValue ds))"

text \<open>\<^verbatim>\<open>String.prototype.includes\<close>.\<close>

fun startsWith :: "jsstring \<Rightarrow> jsstring \<Rightarrow> bool" where
  "startsWith s [] = True"
| "startsWith [] (p # ps) = False"
| "startsWith (c # cs) (p # ps) = (c = p \<and> startsWith cs ps)"

fun includesStr :: "jsstring \<Rightarrow> jsstring \<Rightarrow> bool" where
  "includesStr [] sub = startsWith [] sub"
| "includesStr (c # cs) sub = (startsWith (c # cs) sub \<or> includesStr cs sub)"

section \<open>The label extractor: \<^verbatim>\<open>romanToArabic\<close> and \<^verbatim>\<open>extractPageNumber\<close>\<close>

text \<open>\<^verbatim>\<open>romanMap[roman[i]]\<close>: the value of a symbol, \<open>None\<close> for \<^verbatim>\<open>undefined\<close>.\<close>

definition romanMap :: "nat \<Rightarrow> int option" where
  "romanMap c =
     (if c = 73 then Some 1 else if c = 86 then Some 5 else if c = 88 then Some 10
      else if c = 76 then Some 50 else if c = 67 then Some 100 else if c = 68 then Some 500
      else if c = 77 then Some 1000 else None)"

text \<open>The loop of \<^verbatim>\<open>romanToArabic\<close> runs from the last symbol to the first; its first
  argument holds the symbols still to visit, the rightmost first.\<close>

fun romanLoop :: "jsstring \<Rightarrow> int \<Rightarrow> int \<Rightarrow> int option" where
  "romanLoop [] result prevValue = Some result"
| "romanLoop (c # cs) result prevValue =
     (case romanMap c of
        None \<Rightarrow> None
      | Some currentValue \<Rightarrow>
          if currentValue < prevValue then romanLoop cs (result - currentValue) currentValue
          else romanLoop cs (result + currentValue) currentValue)"

definition romanToArabic :: "jsstring \<Rightarrow> int option" where
  "romanToArabic roman = romanLoop (rev roman) 0 0"

text \<open>
  The five patterns. Each is a matcher at one position of the input, giving capture group 1,
  and a scan that finds the leftmost position where the matcher succeeds, as
  \<^verbatim>\<open>text.match(pattern)\<close> does for a pattern without the \<^verbatim>\<open>g\<close> flag. In every pattern the
  greedy quantifiers are followed by a class disjoint from the one they repeat, so
  backtracking never finds a match that the longest run misses.
\<close>

definition atLineEnd :: "jsstring \<Rightarrow> bool" where
  "atLineEnd s = (case s of [] \<Rightarrow> True | c # _ \<Rightarrow> isLineTerminator c)"

text \<open>A pattern that starts with \<^verbatim>\<open>^\<close> under the \<^verbatim>\<open>m\<close> flag: tried at the start of the input
  and after every line terminator.\<close>

fun scanLines :: "(jsstring \<Rightarrow> jsstring option) \<Rightarrow> bool \<Rightarrow> jsstring \<Rightarrow> jsstring option" where
  "scanLines m lineStart [] = (if lineStart then m [] else None)"
| "scanLines m lineStart (c # cs) =
     (case (if lineStart then m (c # cs) else None) of
        Some cap \<Rightarrow> Some cap
      | None \<Rightarrow> scanLines m (isLineTerminator c) cs)"

text \<open>A pattern without an anchor: tried at every position.\<close>

fun scanAll :: "(jsstring \<Rightarrow> jsstring option) \<Rightarrow> jsstring \<Rightarrow> jsstring option" where
  "scanAll m [] = m []"
| "scanAll m (c # cs) = (case m (c # cs) of Some cap \<Rightarrow> Some cap | None \<Rightarrow> scanAll m cs)"

text \<open>\<^verbatim>\<open>/^(\d+)$/m\<close>\<close>

definition matchDigitsLine :: "jsstring \<Rightarrow> jsstring option" where
  "matchDigitsLine s =
     (let ds = takeWhile isDigit s
      in if ds \<noteq> [] \<and> atLineEnd (dropWhile isDigit s) then Some ds else None)"

text \<open>\<^verbatim>\<open>/^[-\<endash>\<emdash>]\s*(\d+)\s*[-\<endash>\<emdash>]$/m\<close>\<close>

definition matchDashed :: "jsstring \<Rightarrow> jsstring option" where
  "matchDashed s =
     (case s of
        [] \<Rightarrow> None
      | c # r0 \<Rightarrow>
          if isDash c then
            (let r1 = dropWhile isWhiteSpace r0;
                 ds = takeWhile isDigit r1;
                 r2 = dropWhile isWhiteSpace (dropWhile isDigit r1)
             in if ds = [] then None
                else (case r2 of
                        [] \<Rightarrow> None
                      | e # r3 \<Rightarrow> if isDash e \<and> atLineEnd r3 then Some ds else None))
          else None)"

text \<open>\<^verbatim>\<open>/(?:page|pg\.?|p\.?)\s*(\d+)/i\<close>. \<open>stripLiteral\<close> matches a lower-case literal
  ignoring case; \<open>afterPrefix\<close> is the rest of the pattern after one alternative, the flag
  telling whether the alternative ends in \<^verbatim>\<open>\.?\<close>.\<close>

fun stripLiteral :: "jsstring \<Rightarrow> jsstring \<Rightarrow> jsstring option" where
  "stripLiteral [] s = Some s"
| "stripLiteral (p # ps) [] = None"
| "stripLiteral (p # ps) (c # cs) = (if toLowerChar c = p then stripLiteral ps cs else None)"

definition afterPrefix :: "jsstring \<Rightarrow> bool \<Rightarrow> jsstring \<Rightarrow> jsstring option" where
  "afterPrefix lit dot s =
     (case stripLiteral lit s of
        None \<Rightarrow> None
      | Some r \<Rightarrow>
          (let r0 = (case r of [] \<Rightarrow> [] | c # cs \<Rightarrow> if dot \<and> c = 46 then cs else r);
               ds = takeWhile isDigit (dropWhile isWhiteSpace r0)
           in if ds = [] then None else Some ds))"

definition matchPagePrefix :: "jsstring \<Rightarrow> jsstring option" where
  "matchPagePrefix s =
     (case afterPrefix (js ''page'') False s of
        Some cap \<Rightarrow> Some cap
      | None \<Rightarrow>
          (case afterPrefix (js ''pg'') True s of
             Some cap \<Rightarrow> Some cap
           | None \<Rightarrow> afterPrefix (js ''p'') True s))"

text \<open>\<^verbatim>\<open>/^([ivxlcdm]+)$/im\<close>\<close>

definition matchRomanLine :: "jsstring \<Rightarrow> jsstring option" where
  "matchRomanLine s =
     (let rs = takeWhile isRomanLetter s
      in if rs \<noteq> [] \<and> atLineEnd (dropWhile isRomanLetter s) then Some rs else None)"

text \<open>\<^verbatim>\<open>/[\[\(](\d+)[\]\)]/\<close>\<close>

definition matchBracketed :: "jsstring \<Rightarrow> jsstring option" where
  "matchBracketed s =
     (case s of
        [] \<Rightarrow> None
      | c # r \<Rightarrow>
          if c = 91 \<or> c = 40 then
            (let ds = takeWhile isDigit r
             in if ds = [] then None
                else (case dropWhile isDigit r of
                        [] \<Rightarrow> None
                      | e # _ \<Rightarrow> if e = 93 \<or> e = 41 then Some ds else None))
          else None)"

definition patterns :: "(jsstring \<Rightarrow> jsstring option) list" where
  "patterns =
     [scanLines matchDigitsLine True, scanLines matchDashed True, scanAll matchPagePrefix,
      scanLines matchRomanLine True, scanAll matchBracketed]"

record extraction =
  pageNumber :: "jsstring option"
  sortOrder :: "int option"

text \<open>\<^verbatim>\<open>/^[ivxlcdm]+$/i.test(captured)\<close>: no \<^verbatim>\<open>m\<close> flag, so the whole string.\<close>

definition isRomanString :: "jsstring \<Rightarrow> bool" where
  "isRomanString s = (s \<noteq> [] \<and> list_all isRomanLetter s)"

text \<open>The loop over the patterns (lines 80 to 105). A pattern whose first match gives no
  valid number is left behind: the loop goes on with the next pattern, not with the next
  match of the same one.\<close>

fun tryPatterns :: "(jsstring \<Rightarrow> jsstring option) list \<Rightarrow> jsstring \<Rightarrow> extraction" where
  "tryPatterns [] txt = \<lparr>pageNumber = None, sortOrder = None\<rparr>"
| "tryPatterns (pattern # rest) txt =
     (case pattern txt of
        None \<Rightarrow> tryPatterns rest txt
      | Some m1 \<Rightarrow>
          if m1 = [] then tryPatterns rest txt
          else
            (let captured = trim m1 in
             case (if isRomanString captured then romanToArabic (toUpperCase captured) else None) of
               Some arabic \<Rightarrow> \<lparr>pageNumber = Some captured, sortOrder = Some arabic\<rparr>
             | None \<Rightarrow>
                 (case parseInt captured of
                    None \<Rightarrow> tryPatterns rest txt
                  | Some num \<Rightarrow>
                      if num > 0 \<and> num < 10000
                      then \<lparr>pageNumber = Some captured, sortOrder = Some num\<rparr>
                      else tryPatterns rest txt)))"

definition extractPageNumber :: "jsstring \<Rightarrow> extraction" where
  "extractPageNumber txt = tryPatterns patterns txt"

section \<open>The recognition invoker: \<^verbatim>\<open>retryWithBackoff\<close>\<close>

text \<open>A thrown value: an \<^verbatim>\<open>Error\<close> with its message, or any other value, which the source
  only ever turns into text with \<^verbatim>\<open>String(error)\<close>.\<close>

datatype thrown = Error jsstring | NonError jsstring

definition messageOrString :: "thrown \<Rightarrow> jsstring" where
  "messageOrString e = (case e of Error m \<Rightarrow> m | NonError s \<Rightarrow> s)"

definition is500Error :: "thrown \<Rightarrow> bool" where
  "is500Error e =
     (includesStr (messageOrString e) (js ''500'') \<or>
      includesStr (messageOrString e) (js ''Internal Server Error''))"

text \<open>What one run of \<^verbatim>\<open>retryWithBackoff\<close> did: what it returned or threw, the delays it
  waited (the arguments of \<^verbatim>\<open>setTimeout\<close>, in milliseconds, in order) and how often it
  called \<^verbatim>\<open>fn\<close>.\<close>

record 'a backoff =
  outcome :: "thrown + 'a"
  delays :: "int list"
  calls :: nat

text \<open>\<^verbatim>\<open>fn\<close> is the external call; \<open>fn k\<close> is what its call number \<open>k\<close> (from 0) does. The
  loop calls it once per iteration, so the call number is the loop variable \<^verbatim>\<open>attempt\<close>.\<close>

function retryLoop ::
  "(nat \<Rightarrow> thrown + 'a) \<Rightarrow> nat \<Rightarrow> int \<Rightarrow> nat \<Rightarrow> int list \<Rightarrow> thrown \<Rightarrow> 'a backoff" where
  "retryLoop fn maxRetries initialDelay attempt waited lastError =
     (if attempt < maxRetries then
        (case fn attempt of
           Inr v \<Rightarrow> \<lparr>outcome = Inr v, delays = waited, calls = attempt + 1\<rparr>
         | Inl err \<Rightarrow>
             if \<not> is500Error err \<or> attempt = maxRetries - 1
             then \<lparr>outcome = Inl err, delays = waited, calls = attempt + 1\<rparr>
             else retryLoop fn maxRetries initialDelay (attempt + 1)
                    (waited @ [initialDelay * 2 ^ attempt]) err)
      else \<lparr>outcome = Inl lastError, delays = waited, calls = attempt\<rparr>)"
  by pat_completeness auto
termination
  by (relation "measure (\<lambda>(fn, maxRetries, initialDelay, attempt, waited, lastError). maxRetries - attempt)") auto

text \<open>\<^verbatim>\<open>lastError\<close> starts as \<^verbatim>\<open>undefined\<close>.\<close>

definition retryWithBackoff :: "(nat \<Rightarrow> thrown + 'a) \<Rightarrow> nat \<Rightarrow> int \<Rightarrow> 'a backoff" where
  "retryWithBackoff fn maxRetries initialDelay =
     retryLoop fn maxRetries initialDelay 0 [] (NonError (js ''undefined''))"

text \<open>The defaults of the two optional parameters, with which \<^verbatim>\<open>performOCR\<close> calls it.\<close>

definition retryWithBackoffDefault :: "(nat \<Rightarrow> thrown + 'a) \<Rightarrow> 'a backoff" where
  "retryWithBackoffDefault fn = retryWithBackoff fn 3 1000"

section \<open>Pages, projects and the storage layer\<close>

datatype status = pending | processing | completed | failed

text \<open>The rows of the two tables, with the columns the router reads and writes. The
  columns carry the name of their table, since \<^verbatim>\<open>id\<close> and \<^verbatim>\<open>sortOrder\<close> name other things
  too.\<close>

record page =
  page_id :: int
  page_projectId :: int
  page_imageUrl :: jsstring
  page_extractedText :: "jsstring option"
  page_detectedPageNumber :: "jsstring option"
  page_formattingData :: "jsstring option"
  page_status :: status
  page_errorMessage :: "jsstring option"
  page_sortOrder :: int

record project =
  project_id :: int
  project_userId :: int
  project_totalPages :: int
  project_processedPages :: int

record db =
  db_pages :: "page list"
  db_projects :: "project list"

text \<open>The result of \<^verbatim>\<open>performOCR\<close> (interface \<^verbatim>\<open>OCRResult\<close>); the formatting blocks are kept
  as an opaque text.\<close>

record OCRResult =
  extractedText :: jsstring
  detectedPageNumber :: "jsstring option"
  formattingData :: jsstring
  confidence :: rat

text \<open>
  The storage layer (\<^verbatim>\<open>./db\<close>) is not among the sources; the six functions of it that the
  router calls are modelled from the specification. Section 6 describes the layer as an
  accessor that creates, reads and updates page and project records by identity, one record
  at a time. Its calls are taken to succeed: a failure of the database is not modelled.

  Two things the router depends on are not visible and are parameters of the model:
  \<^item> the order in which \<^verbatim>\<open>getPagesByProjectId\<close> returns the rows: the order of creation
    (the order of the table), or ascending stored sort position;
  \<^item> what \<^verbatim>\<open>updatePageStatus(id, status)\<close> does to the error message of the row when it
    is called without a message: leave it, or clear it.
\<close>

datatype row_order = ByCreation | BySortOrder

datatype omitted_message = LeavesMessage | ClearsMessage

text \<open>Modelled from the spec: \<^verbatim>\<open>getPageById\<close> of the missing storage layer, the page record
  with the given identity, \<open>None\<close> when there is none.\<close>

definition getPageById :: "int \<Rightarrow> db \<Rightarrow> page option" where
  "getPageById i d = find (\<lambda>p. page_id p = i) (db_pages d)"

text \<open>Modelled from the spec: \<^verbatim>\<open>getProjectById\<close> of the missing storage layer, the project
  record with the given identity.\<close>

definition getProjectById :: "int \<Rightarrow> db \<Rightarrow> project option" where
  "getProjectById i d = find (\<lambda>q. project_id q = i) (db_projects d)"

text \<open>Modelled from the spec: \<^verbatim>\<open>getPagesByProjectId\<close> of the missing storage layer, the
  page records of a project, in one of the two orders.\<close>

definition getPagesByProjectId :: "row_order \<Rightarrow> int \<Rightarrow> db \<Rightarrow> page list" where
  "getPagesByProjectId ro i d =
     (let rows = filter (\<lambda>p. page_projectId p = i) (db_pages d)
      in case ro of ByCreation \<Rightarrow> rows | BySortOrder \<Rightarrow> sort_key page_sortOrder rows)"

text \<open>Modelled from the spec: \<^verbatim>\<open>updatePage(id, {...})\<close> of the missing storage layer, a
  partial update of the page record with the given identity; the columns it sets are given
  as a function on the row. The other records stay as they are.\<close>

definition updatePage :: "int \<Rightarrow> (page \<Rightarrow> page) \<Rightarrow> db \<Rightarrow> db" where
  "updatePage i f d = d\<lparr>db_pages := map (\<lambda>p. if page_id p = i then f p else p) (db_pages d)\<rparr>"

text \<open>Modelled from the spec: \<^verbatim>\<open>updateProject(id, {...})\<close> of the missing storage layer,
  a partial update of the project record with the given identity.\<close>

definition updateProject :: "int \<Rightarrow> (project \<Rightarrow> project) \<Rightarrow> db \<Rightarrow> db" where
  "updateProject i f d =
     d\<lparr>db_projects := map (\<lambda>q. if project_id q = i then f q else q) (db_projects d)\<rparr>"

text \<open>Modelled from the spec: \<^verbatim>\<open>updatePageStatus(id, status, errorMessage?)\<close> of the
  missing storage layer: it sets the status, and the error message when one is given.\<close>

definition updatePageStatus :: "omitted_message \<Rightarrow> int \<Rightarrow> status \<Rightarrow> jsstring option \<Rightarrow> db \<Rightarrow> db" where
  "updatePageStatus om i st msg d =
     updatePage i
       (\<lambda>p. p\<lparr>page_status := st,
               page_errorMessage :=
                 (case msg of
                    Some m \<Rightarrow> Some m
                  | None \<Rightarrow> (case om of LeavesMessage \<Rightarrow> page_errorMessage p | ClearsMessage \<Rightarrow> None))\<rparr>)
       d"


section \<open>The router: processing and retrying pages\<close>

text \<open>
  A procedure takes the identity of the signed-in user (\<^verbatim>\<open>ctx.user.id\<close>), its input and the
  stored state, and gives what it returned or threw together with the state it leaves: a
  procedure that throws has still written what it wrote before. \<^verbatim>\<open>performOCR\<close> calls the
  external recognizer and is a parameter: what it returns or throws for an image.
  The object \<^verbatim>\<open>{success: true, pageNumber}\<close> that a single-page procedure returns is given
  by its \<^verbatim>\<open>pageNumber\<close>.
\<close>

text \<open>\<^verbatim>\<open>error instanceof Error ? error.message : "OCR processing failed"\<close>\<close>

definition messageOf :: "thrown \<Rightarrow> jsstring" where
  "messageOf e = (case e of Error m \<Rightarrow> m | NonError _ \<Rightarrow> js ''OCR processing failed'')"

text \<open>The partial update both retry procedures and \<^verbatim>\<open>processOCR\<close> make on success; the flag
  tells whether the update has \<^verbatim>\<open>errorMessage: null\<close> among its columns.\<close>

definition completedUpdate :: "bool \<Rightarrow> OCRResult \<Rightarrow> page \<Rightarrow> page" where
  "completedUpdate clearsError ocrResult p =
     (let p1 = p\<lparr>page_extractedText := Some (extractedText ocrResult),
                  page_detectedPageNumber := detectedPageNumber ocrResult,
                  page_formattingData := Some (formattingData ocrResult),
                  page_status := completed\<rparr>
      in if clearsError then p1\<lparr>page_errorMessage := None\<rparr> else p1)"

definition processOCR ::
  "omitted_message \<Rightarrow> (jsstring \<Rightarrow> thrown + OCRResult) \<Rightarrow> int \<Rightarrow> int \<Rightarrow> db
     \<Rightarrow> (thrown + jsstring option) \<times> db" where
  "processOCR om performOCR userId pageId d =
     (case getPageById pageId d of
        None \<Rightarrow> (Inl (Error (js ''Page not found'')), d)
      | Some pg \<Rightarrow>
          (case getProjectById (page_projectId pg) d of
             None \<Rightarrow> (Inl (Error (js ''Unauthorized'')), d)
           | Some proj \<Rightarrow>
               if project_userId proj \<noteq> userId then (Inl (Error (js ''Unauthorized'')), d)
               else
                 (let d1 = updatePageStatus om pageId processing None d in
                  case performOCR (page_imageUrl pg) of
                    Inr ocrResult \<Rightarrow>
                      (let d2 = updatePage pageId (completedUpdate False ocrResult) d1;
                           d3 = updateProject (page_projectId pg)
                                  (\<lambda>q. q\<lparr>project_processedPages := project_processedPages proj + 1\<rparr>) d2
                       in (Inr (detectedPageNumber ocrResult), d3))
                  | Inl err \<Rightarrow>
                      (Inl err, updatePageStatus om pageId failed (Some (messageOf err)) d1))))"

definition retrySingle ::
  "omitted_message \<Rightarrow> (jsstring \<Rightarrow> thrown + OCRResult) \<Rightarrow> int \<Rightarrow> int \<Rightarrow> db
     \<Rightarrow> (thrown + jsstring option) \<times> db" where
  "retrySingle om performOCR userId pageId d =
     (case getPageById pageId d of
        None \<Rightarrow> (Inl (Error (js ''Page not found'')), d)
      | Some pg \<Rightarrow>
          (case getProjectById (page_projectId pg) d of
             None \<Rightarrow> (Inl (Error (js ''Unauthorized'')), d)
           | Some proj \<Rightarrow>
               if project_userId proj \<noteq> userId then (Inl (Error (js ''Unauthorized'')), d)
               else if page_status pg \<noteq> failed \<and> page_status pg \<noteq> pending
               then (Inl (Error (js ''Only failed or pending pages can be processed'')), d)
               else
                 (let d1 = updatePageStatus om pageId processing None d in
                  case performOCR (page_imageUrl pg) of
                    Inr ocrResult \<Rightarrow>
                      (let d2 = updatePage pageId (completedUpdate True ocrResult) d1;
                           d3 = updateProject (page_projectId pg)
                                  (\<lambda>q. q\<lparr>project_processedPages := project_processedPages proj + 1\<rparr>) d2
                       in (Inr (detectedPageNumber ocrResult), d3))
                  | Inl err \<Rightarrow>
                      (Inl (Error (messageOf err)),
                       updatePage pageId
                         (\<lambda>p. p\<lparr>page_status := failed, page_errorMessage := Some (messageOf err)\<rparr>) d1))))"

subsection \<open>\<^verbatim>\<open>retryFailed\<close>\<close>

record retryEntry =
  pageId :: int
  success :: bool
  error :: "jsstring option"

text \<open>The returned object; \<^verbatim>\<open>successCount\<close> is absent when there was no failed page.\<close>

record retryReport =
  retriedCount :: nat
  successCount :: "nat option"
  results :: "retryEntry list"

text \<open>The loop over the failed pages. The recognizer is called once per page, one page after
  the other; \<open>performOCRAt k\<close> is what the call for the page at index \<open>k\<close> of the loop does,
  so that the outcome may differ between two calls for the same image.\<close>

fun retryPages ::
  "omitted_message \<Rightarrow> (nat \<Rightarrow> jsstring \<Rightarrow> thrown + OCRResult) \<Rightarrow> nat \<Rightarrow> page list
     \<Rightarrow> retryEntry list \<Rightarrow> db \<Rightarrow> retryEntry list \<times> db" where
  "retryPages om performOCRAt k [] res d = (res, d)"
| "retryPages om performOCRAt k (pg # rest) res d =
     (let d1 = updatePageStatus om (page_id pg) processing None d in
      case performOCRAt k (page_imageUrl pg) of
        Inr ocrResult \<Rightarrow>
          retryPages om performOCRAt (k + 1) rest
            (res @ [\<lparr>pageId = page_id pg, success = True, error = None\<rparr>])
            (updatePage (page_id pg) (completedUpdate True ocrResult) d1)
      | Inl err \<Rightarrow>
          retryPages om performOCRAt (k + 1) rest
            (res @ [\<lparr>pageId = page_id pg, success = False, error = Some (messageOf err)\<rparr>])
            (updatePage (page_id pg)
               (\<lambda>p. p\<lparr>page_status := failed, page_errorMessage := Some (messageOf err)\<rparr>) d1))"

definition retryFailed ::
  "row_order \<Rightarrow> omitted_message \<Rightarrow> (nat \<Rightarrow> jsstring \<Rightarrow> thrown + OCRResult) \<Rightarrow> int \<Rightarrow> int \<Rightarrow> db
     \<Rightarrow> (thrown + retryReport) \<times> db" where
  "retryFailed ro om performOCRAt userId projectId d =
     (case getProjectById projectId d of
        None \<Rightarrow> (Inl (Error (js ''Project not found'')), d)
      | Some proj \<Rightarrow>
          if project_userId proj \<noteq> userId then (Inl (Error (js ''Unauthorized'')), d)
          else
            (let failedPages = filter (\<lambda>p. page_status p = failed) (getPagesByProjectId ro projectId d) in
             if length failedPages = 0
             then (Inr \<lparr>retriedCount = 0, successCount = None, results = []\<rparr>, d)
             else
               (let (res, d1) = retryPages om performOCRAt 0 failedPages [] d;
                    n = length (filter success res);
                    d2 = (if n > 0
                          then updateProject projectId
                                 (\<lambda>q. q\<lparr>project_processedPages := project_processedPages proj + int n\<rparr>) d1
                          else d1)
                in (Inr \<lparr>retriedCount = length failedPages, successCount = Some n, results = res\<rparr>, d2))))"

section \<open>The router: \<^verbatim>\<open>reorder\<close>\<close>

text \<open>
  \<^verbatim>\<open>String.prototype.localeCompare\<close> on labels. A label is what \<^verbatim>\<open>extractPageNumber\<close> gave:
  ASCII digits, or letters of the Roman alphabet. On such strings the default collation
  compares the primary weights first, position by position, a proper prefix first: a digit
  by its value, before every letter, and the letters in alphabetical order whatever their
  case. Strings with the same primary weights differ in case only; then the first position
  where the case differs decides, lower case first. Code units other than ASCII digits and
  letters get the weights after the letters, in the order of the code units, which is not
  what a collation does with them; no label has one.
\<close>

definition collationPrimary :: "nat \<Rightarrow> nat" where
  "collationPrimary c =
     (if isDigit c then c - 48
      else if 97 \<le> toLowerChar c \<and> toLowerChar c \<le> 122 then toLowerChar c - 87
      else c + 36)"

definition collationCase :: "nat \<Rightarrow> nat" where
  "collationCase c = (if 65 \<le> c \<and> c \<le> 90 then 1 else 0)"

fun lexCompare :: "nat list \<Rightarrow> nat list \<Rightarrow> int" where
  "lexCompare [] [] = 0"
| "lexCompare [] (y # ys) = - 1"
| "lexCompare (x # xs) [] = 1"
| "lexCompare (x # xs) (y # ys) = (if x < y then - 1 else if y < x then 1 else lexCompare xs ys)"

definition localeCompare :: "jsstring \<Rightarrow> jsstring \<Rightarrow> int" where
  "localeCompare a b =
     (let primary = lexCompare (map collationPrimary a) (map collationPrimary b)
      in if primary \<noteq> 0 then primary
         else lexCompare (map collationCase a) (map collationCase b))"

text \<open>A label is truthy when it is neither \<^verbatim>\<open>null\<close> nor the empty string; \<open>labelText\<close> reads
  a label that is known not to be \<^verbatim>\<open>null\<close> (the \<^verbatim>\<open>!\<close> of the source).\<close>

definition truthy :: "jsstring option \<Rightarrow> bool" where
  "truthy l = (case l of None \<Rightarrow> False | Some s \<Rightarrow> s \<noteq> [])"

definition labelText :: "jsstring option \<Rightarrow> jsstring" where
  "labelText l = (case l of None \<Rightarrow> [] | Some s \<Rightarrow> s)"

text \<open>The comparator of lines 294 to 313.\<close>

definition comparePages :: "page \<Rightarrow> page \<Rightarrow> int" where
  "comparePages a b =
     (if truthy (page_detectedPageNumber a) \<and> \<not> truthy (page_detectedPageNumber b) then - 1
      else if \<not> truthy (page_detectedPageNumber a) \<and> truthy (page_detectedPageNumber b) then 1
      else if \<not> truthy (page_detectedPageNumber a) \<and> \<not> truthy (page_detectedPageNumber b)
      then page_id a - page_id b
      else
        (case (parseInt (labelText (page_detectedPageNumber a)),
               parseInt (labelText (page_detectedPageNumber b))) of
           (Some aNum, Some bNum) \<Rightarrow> aNum - bNum
         | _ \<Rightarrow> localeCompare (labelText (page_detectedPageNumber a))
                               (labelText (page_detectedPageNumber b))))"

text \<open>
  \<^verbatim>\<open>Array.prototype.sort\<close> with a comparator is a stable sort: elements that compare equal
  keep their order. When the comparator is a consistent order, every stable sort gives the
  same array, and the model is the stable insertion sort. On an inconsistent comparator the
  result depends on the engine; the theorems below are about labels on which
  \<open>comparePages\<close> is consistent.
\<close>

fun insertBy :: "('a \<Rightarrow> 'a \<Rightarrow> int) \<Rightarrow> 'a \<Rightarrow> 'a list \<Rightarrow> 'a list" where
  "insertBy cmp x [] = [x]"
| "insertBy cmp x (y # ys) = (if cmp x y \<le> 0 then x # y # ys else y # insertBy cmp x ys)"

definition sortBy :: "('a \<Rightarrow> 'a \<Rightarrow> int) \<Rightarrow> 'a list \<Rightarrow> 'a list" where
  "sortBy cmp xs = foldr (insertBy cmp) xs []"

text \<open>The loop of lines 316 to 318: the page at index \<open>i\<close> of the sorted array gets sort
  position \<open>i\<close>.\<close>

fun writeSortOrder :: "page list \<Rightarrow> int \<Rightarrow> db \<Rightarrow> db" where
  "writeSortOrder [] i d = d"
| "writeSortOrder (p # ps) i d =
     writeSortOrder ps (i + 1) (updatePage (page_id p) (\<lambda>q. q\<lparr>page_sortOrder := i\<rparr>) d)"

definition sortedPages :: "page list \<Rightarrow> page list" where
  "sortedPages pages = sortBy comparePages pages"

definition reorder :: "row_order \<Rightarrow> int \<Rightarrow> int \<Rightarrow> db \<Rightarrow> (thrown + bool) \<times> db" where
  "reorder ro userId projectId d =
     (case getProjectById projectId d of
        None \<Rightarrow> (Inl (Error (js ''Project not found'')), d)
      | Some proj \<Rightarrow>
          if project_userId proj \<noteq> userId then (Inl (Error (js ''Unauthorized'')), d)
          else (Inr True, writeSortOrder (sortedPages (getPagesByProjectId ro projectId d)) 0 d))"

section \<open>Notions used to state the properties\<close>

text \<open>The Roman numerals of 1 to 100 in standard subtractive notation, in lower case: the
  numeral of the tens followed by the numeral of the units.\<close>

definition romanUnits :: "nat \<Rightarrow> jsstring" where
  "romanUnits k = js ([[], ''i'', ''ii'', ''iii'', ''iv'', ''v'', ''vi'', ''vii'', ''viii'', ''ix''] ! k)"

definition romanTens :: "nat \<Rightarrow> jsstring" where
  "romanTens k =
     js ([[], ''x'', ''xx'', ''xxx'', ''xl'', ''l'', ''lx'', ''lxx'', ''lxxx'', ''xc'', ''c''] ! k)"

definition romanNumeral :: "nat \<Rightarrow> jsstring" where
  "romanNumeral n = romanTens (n div 10) @ romanUnits (n mod 10)"

text \<open>What a run of the retry loop that starts at attempt \<open>a\<close>, having waited \<open>w\<close>, must
  look like: it calls \<open>fn\<close> at least once more and at most \<open>m\<close> times in all, its outcome
  is that of its last call, every call before the last threw a transient error, it waited
  \<open>d * 2 ^ k\<close> after call \<open>k\<close>, and if it throws, the error is not transient or the attempts
  are used up.\<close>

definition runFrom ::
  "(nat \<Rightarrow> thrown + 'a) \<Rightarrow> nat \<Rightarrow> int \<Rightarrow> nat \<Rightarrow> int list \<Rightarrow> 'a backoff \<Rightarrow> bool" where
  "runFrom fn m d a w r =
     (a < calls r \<and> calls r \<le> m \<and>
      outcome r = fn (calls r - 1) \<and>
      (\<forall>k. a \<le> k \<and> k < calls r - 1 \<longrightarrow> (\<exists>e. fn k = Inl e \<and> is500Error e)) \<and>
      delays r = w @ map (\<lambda>k. d * 2 ^ k) [a..<calls r - 1] \<and>
      (\<forall>e. outcome r = Inl e \<longrightarrow> \<not> is500Error e \<or> calls r = m))"

text \<open>A recognizer that answers with an upstream error twice and then succeeds.\<close>

definition flaky :: "nat \<Rightarrow> thrown + nat" where
  "flaky k = (if k < 2 then Inl (Error (js ''500 Internal Server Error'')) else Inr 7)"

text \<open>Labels of the shape the extractor writes: no label, or a non-empty string of decimal
  digits, or a non-empty string of Roman-numeral letters (lemma \<open>extract_label_wf\<close> below).\<close>

definition wfLabel :: "jsstring option \<Rightarrow> bool" where
  "wfLabel l =
     (case l of None \<Rightarrow> True | Some s \<Rightarrow> s \<noteq> [] \<and> (list_all isDigit s \<or> list_all isRomanLetter s))"

text \<open>Labels as the extractor writes them (lemma \<open>extract_label_extracted\<close> below): of that
  shape, and a digit label stands for a number above 0 and below 10000, on which \<open>parseInt\<close>
  is what JavaScript computes.\<close>

definition extractedLabel :: "jsstring option \<Rightarrow> bool" where
  "extractedLabel l =
     (case l of
        None \<Rightarrow> True
      | Some s \<Rightarrow>
          s \<noteq> [] \<and>
          (list_all isRomanLetter s \<or>
           list_all isDigit s \<and> 0 < digitsValue s \<and> digitsValue s < 10000))"

text \<open>Whether a page has a label, the text of its label, and the number that \<^verbatim>\<open>parseInt\<close>
  reads from the label: \<open>None\<close> for a page without a label and for a label that is not a
  number, such as a Roman numeral.\<close>

definition hasLabel :: "page \<Rightarrow> bool" where
  "hasLabel p = truthy (page_detectedPageNumber p)"

definition labelOf :: "page \<Rightarrow> jsstring" where
  "labelOf p = labelText (page_detectedPageNumber p)"

definition labelNumber :: "page \<Rightarrow> int option" where
  "labelNumber p = (if hasLabel p then parseInt (labelText (page_detectedPageNumber p)) else None)"

text \<open>A key under whose lexicographic order the comparator of \<^verbatim>\<open>reorder\<close> is a linear
  preorder on pages with such labels: pages with a numeric label first, by their number;
  then the pages whose label is not a number, by the collation key of the label; then the
  pages without a label, by id.\<close>

definition sortRank :: "page \<Rightarrow> nat \<times> int \<times> nat list \<times> nat list \<times> int" where
  "sortRank p =
     (if \<not> truthy (page_detectedPageNumber p) then (2, 0, [], [], page_id p)
      else
        (case parseInt (labelText (page_detectedPageNumber p)) of
           Some n \<Rightarrow> (0, n, [], [], 0)
         | None \<Rightarrow>
             (1, 0, map collationPrimary (labelText (page_detectedPageNumber p)),
              map collationCase (labelText (page_detectedPageNumber p)), 0)))"

text \<open>The position that the loop of lines 316 to 318 writes for the page with id \<open>x\<close>
  when it runs over the array \<open>S\<close> from index \<open>i\<close>, and the row of a page after the loop has
  run from index 0.\<close>

fun positionIn :: "page list \<Rightarrow> int \<Rightarrow> int \<Rightarrow> int option" where
  "positionIn [] i x = None"
| "positionIn (p # ps) i x = (if page_id p = x then Some i else positionIn ps (i + 1) x)"

definition positioned :: "page list \<Rightarrow> page \<Rightarrow> page" where
  "positioned S p =
     (case positionIn S 0 (page_id p) of None \<Rightarrow> p | Some k \<Rightarrow> p\<lparr>page_sortOrder := k\<rparr>)"

text \<open>The entry that the specification expects in the report of \<^verbatim>\<open>retryFailed\<close> for the
  page at index \<open>k\<close> of the failed pages.\<close>

definition entryOf :: "(nat \<Rightarrow> jsstring \<Rightarrow> thrown + OCRResult) \<Rightarrow> nat \<times> page \<Rightarrow> retryEntry" where
  "entryOf performOCRAt kp =
     (case performOCRAt (fst kp) (page_imageUrl (snd kp)) of
        Inr _ \<Rightarrow> \<lparr>pageId = page_id (snd kp), success = True, error = None\<rparr>
      | Inl err \<Rightarrow> \<lparr>pageId = page_id (snd kp), success = False, error = Some (messageOf err)\<rparr>)"

subsection \<open>Example data\<close>

text \<open>A project owned by user 1, with one page, and a recognizer that succeeds and one that
  fails with a client-side error.\<close>

definition ownProject :: "int \<Rightarrow> int \<Rightarrow> project" where
  "ownProject n k =
     \<lparr>project_id = 1, project_userId = 1, project_totalPages = n,
      project_processedPages = k\<rparr>"

definition examplePage :: "status \<Rightarrow> jsstring option \<Rightarrow> page" where
  "examplePage st msg =
     \<lparr>page_id = 1, page_projectId = 1, page_imageUrl = js ''page-1.png'',
      page_extractedText = (if st = completed then Some (js ''old text'') else None),
      page_detectedPageNumber = None, page_formattingData = None, page_status = st,
      page_errorMessage = msg, page_sortOrder = 0\<rparr>"

definition exampleDb :: "status \<Rightarrow> jsstring option \<Rightarrow> int \<Rightarrow> db" where
  "exampleDb st msg n =
     \<lparr>db_pages = [examplePage st msg],
      db_projects = [ownProject 1 n]\<rparr>"

definition recognized :: "jsstring \<Rightarrow> thrown + OCRResult" where
  "recognized url =
     Inr \<lparr>extractedText = js ''new text'', detectedPageNumber = Some (js ''7''),
          formattingData = js ''[]'', confidence = 9 / 10\<rparr>"

definition unrecognized :: "jsstring \<Rightarrow> thrown + OCRResult" where
  "unrecognized url = Inl (Error (js ''OCR processing failed: 400 Bad Request''))"

text \<open>Projects with labelled pages: one with the Roman labels v and ix, one with the labels
  none, 10, iv, 2, none in the order of creation.\<close>

definition labelledPage :: "int \<Rightarrow> jsstring option \<Rightarrow> int \<Rightarrow> page" where
  "labelledPage i l pos =
     \<lparr>page_id = i, page_projectId = 1, page_imageUrl = js ''page.png'',
      page_extractedText = Some (js ''text''), page_detectedPageNumber = l,
      page_formattingData = None, page_status = completed, page_errorMessage = None,
      page_sortOrder = pos\<rparr>"

definition romanDb :: db where
  "romanDb =
     \<lparr>db_pages = [labelledPage 1 (Some (js ''v'')) 0, labelledPage 2 (Some (js ''ix'')) 1],
      db_projects = [ownProject 2 2]\<rparr>"

definition mixedDb :: db where
  "mixedDb =
     \<lparr>db_pages =
        [labelledPage 1 None 0, labelledPage 2 (Some (js ''10'')) 1,
         labelledPage 3 (Some (js ''iv'')) 2, labelledPage 4 (Some (js ''2'')) 3,
         labelledPage 5 None 4],
      db_projects = [ownProject 5 5]\<rparr>"

text \<open>A project with ties: the labels none, 10, iv, 2, 02, iv, none in the order of
  creation.\<close>

definition tiedDb :: db where
  "tiedDb =
     \<lparr>db_pages =
        [labelledPage 1 None 0, labelledPage 2 (Some (js ''10'')) 0,
         labelledPage 3 (Some (js ''iv'')) 0, labelledPage 4 (Some (js ''2'')) 0,
         labelledPage 5 (Some (js ''02'')) 0, labelledPage 6 (Some (js ''iv'')) 0,
         labelledPage 7 None 0],
      db_projects = [ownProject 7 7]\<rparr>"

text \<open>A project with five failed pages, and a recognizer that succeeds on the first, third
  and fifth call and fails on the second and fourth.\<close>

definition failedPage :: "int \<Rightarrow> page" where
  "failedPage i =
     \<lparr>page_id = i, page_projectId = 1, page_imageUrl = js ''page.png'',
      page_extractedText = None, page_detectedPageNumber = None,
      page_formattingData = None, page_status = failed,
      page_errorMessage = Some (js ''earlier failure''), page_sortOrder = i\<rparr>"

definition batchDb :: db where
  "batchDb =
     \<lparr>db_pages = [failedPage 1, failedPage 2, failedPage 3, failedPage 4, failedPage 5],
      db_projects = [ownProject 5 0]\<rparr>"

definition batchOCR :: "nat \<Rightarrow> jsstring \<Rightarrow> thrown + OCRResult" where
  "batchOCR k url = (if k = 1 \<or> k = 3 then unrecognized url else recognized url)"

section \<open>The label extractor\<close>

lemmas char_defs =
  isDigit_def isLineTerminator_def isWhiteSpace_def isDash_def isRomanLetter_def toLowerChar_def

lemmas extract_defs =
  extractPageNumber_def patterns_def matchDigitsLine_def matchDashed_def matchPagePrefix_def
  afterPrefix_def matchRomanLine_def matchBracketed_def atLineEnd_def isRomanString_def trim_def
  parseInt_def digitsValue_def romanToArabic_def romanMap_def toUpperCase_def

text \<open>The cases of the test file \<^verbatim>\<open>server/ocrService.test.ts\<close> that the table of the
  specification leaves out.\<close>

lemma extract_parentheses:
  "extractPageNumber (js ''(99)'') = \<lparr>pageNumber = Some (js ''99''), sortOrder = Some 99\<rparr>"
  by (simp add: extract_defs char_defs)

lemma extract_page_abc:
  "extractPageNumber (js ''Page abc'') = \<lparr>pageNumber = None, sortOrder = None\<rparr>"
  by (simp add: extract_defs char_defs)

lemma extract_multiline:
  "extractPageNumber
     ([10] @ js ''      Some content here'' @ [10] @ js ''      Page 45'' @ [10] @
      js ''      More content'' @ [10] @ js ''    '') =
   \<lparr>pageNumber = Some (js ''45''), sortOrder = Some 45\<rparr>"
  by (simp add: extract_defs char_defs)

text \<open>
  C7. The label extractor gives the results of the example table of the specification:
  "42" gives label "42" and sort key 42; "Page 123" gives "123" and 123; "iv" gives "iv" and
  4; "XII" gives "XII" and 12; "- 56 -" gives "56" and 56; "[78]" gives "78" and 78; "99999"
  is out of range and gives null, null; "no number here" gives null, null.
\<close>

theorem extract_example_table:
  "extractPageNumber (js ''42'') = \<lparr>pageNumber = Some (js ''42''), sortOrder = Some 42\<rparr> \<and>
   extractPageNumber (js ''Page 123'') = \<lparr>pageNumber = Some (js ''123''), sortOrder = Some 123\<rparr> \<and>
   extractPageNumber (js ''iv'') = \<lparr>pageNumber = Some (js ''iv''), sortOrder = Some 4\<rparr> \<and>
   extractPageNumber (js ''XII'') = \<lparr>pageNumber = Some (js ''XII''), sortOrder = Some 12\<rparr> \<and>
   extractPageNumber (js ''- 56 -'') = \<lparr>pageNumber = Some (js ''56''), sortOrder = Some 56\<rparr> \<and>
   extractPageNumber (js ''[78]'') = \<lparr>pageNumber = Some (js ''78''), sortOrder = Some 78\<rparr> \<and>
   extractPageNumber (js ''99999'') = \<lparr>pageNumber = None, sortOrder = None\<rparr> \<and>
   extractPageNumber (js ''no number here'') = \<lparr>pageNumber = None, sortOrder = None\<rparr>"
  by (simp add: extract_defs char_defs)

text \<open>
  C10. The bound 0 < n < 10000 holds for digit captures only. A line of ten letters m
  consists of Roman-numeral letters and is given the sort key 10000, while the digits
  "10000" are rejected: the Roman branch returns before any range check.
\<close>

theorem roman_capture_unbounded:
  "list_all isRomanLetter (js ''mmmmmmmmmm'') \<and>
   extractPageNumber (js ''mmmmmmmmmm'') =
     \<lparr>pageNumber = Some (js ''mmmmmmmmmm''), sortOrder = Some 10000\<rparr> \<and>
   extractPageNumber (js ''10000'') = \<lparr>pageNumber = None, sortOrder = None\<rparr>"
  by (simp add: extract_defs char_defs)

subsection \<open>Roman numerals\<close>

text \<open>On a text without digits, dashes and the letter p the first three patterns find
  nothing.\<close>

lemma scan_digits_none: "\<forall>c\<in>set s. \<not> isDigit c \<Longrightarrow> scanLines matchDigitsLine b s = None"
  by (induction s arbitrary: b) (auto simp: matchDigitsLine_def)

lemma scan_dashed_none: "\<forall>c\<in>set s. \<not> isDash c \<Longrightarrow> scanLines matchDashed b s = None"
  by (induction s arbitrary: b) (auto simp: matchDashed_def)

lemma scan_page_none: "\<forall>c\<in>set s. toLowerChar c \<noteq> 112 \<Longrightarrow> scanAll matchPagePrefix s = None"
  by (induction s) (auto simp: matchPagePrefix_def afterPrefix_def)

lemma scan_roman_all:
  "s \<noteq> [] \<Longrightarrow> list_all isRomanLetter s \<Longrightarrow> scanLines matchRomanLine True s = Some s"
proof -
  assume a: "s \<noteq> []" "list_all isRomanLetter s"
  then have tw: "takeWhile isRomanLetter s = s" and dw: "dropWhile isRomanLetter s = []"
    by (simp_all add: list_all_iff)
  have "matchRomanLine s = Some s"
    using a(1) by (simp add: matchRomanLine_def atLineEnd_def tw dw)
  then show ?thesis using a(1) by (cases s) simp_all
qed

lemma roman_letter_classes:
  "isRomanLetter c \<Longrightarrow> \<not> isDigit c \<and> \<not> isDash c \<and> \<not> isWhiteSpace c \<and> toLowerChar c \<noteq> 112"
  by (auto simp: char_defs)

lemma trim_id:
  "s \<noteq> [] \<Longrightarrow> \<not> isWhiteSpace (hd s) \<Longrightarrow> \<not> isWhiteSpace (last s) \<Longrightarrow> trim s = s"
proof -
  assume a: "s \<noteq> []" "\<not> isWhiteSpace (hd s)" "\<not> isWhiteSpace (last s)"
  then have 1: "dropWhile isWhiteSpace s = s" by (cases s) auto
  from a have "rev s \<noteq> []" "\<not> isWhiteSpace (hd (rev s))" by (auto simp: hd_rev)
  then have 2: "dropWhile isWhiteSpace (rev s) = rev s" by (cases "rev s") auto
  show ?thesis by (simp add: trim_def 1 2)
qed

lemma romanMap_upper:
  "isRomanLetter c \<Longrightarrow> \<exists>v. romanMap (if 97 \<le> c \<and> c \<le> 122 then c - 32 else c) = Some v"
  by (auto simp: isRomanLetter_def romanMap_def)

lemma romanLoop_some: "\<forall>c\<in>set xs. romanMap c \<noteq> None \<Longrightarrow> romanLoop xs r p \<noteq> None"
  by (induction xs arbitrary: r p) auto

lemma romanToArabic_some: "list_all isRomanLetter s \<Longrightarrow> romanToArabic (toUpperCase s) \<noteq> None"
proof -
  assume "list_all isRomanLetter s"
  then have "\<forall>c\<in>set (rev (toUpperCase s)). romanMap c \<noteq> None"
    using romanMap_upper by (fastforce simp: toUpperCase_def list_all_iff)
  then show ?thesis unfolding romanToArabic_def by (rule romanLoop_some)
qed

text \<open>A text that consists of Roman-numeral letters only is its own label, and its sort key
  is whatever \<^verbatim>\<open>romanToArabic\<close> makes of it.\<close>

lemma extract_roman:
  assumes "s \<noteq> []" "list_all isRomanLetter s"
  shows "extractPageNumber s = \<lparr>pageNumber = Some s, sortOrder = romanToArabic (toUpperCase s)\<rparr>"
proof -
  have cl: "\<forall>c\<in>set s. \<not> isDigit c \<and> \<not> isDash c \<and> \<not> isWhiteSpace c \<and> toLowerChar c \<noteq> 112"
    using assms(2) roman_letter_classes by (auto simp: list_all_iff)
  have t: "trim s = s" using assms(1) cl by (intro trim_id) auto
  obtain v where v: "romanToArabic (toUpperCase s) = Some v"
    using romanToArabic_some[OF assms(2)] by auto
  show ?thesis
    using assms cl v
    by (simp add: extractPageNumber_def patterns_def scan_digits_none scan_dashed_none
        scan_page_none scan_roman_all t isRomanString_def)
qed

lemma upper_of_lower: "toUpperCase (map toLowerChar s) = toUpperCase s"
  by (induction s) (auto simp: toUpperCase_def toLowerChar_def)

lemma numeral_value:
  assumes "t \<le> 10" "u \<le> 9"
  shows "romanToArabic (toUpperCase (romanTens t @ romanUnits u)) = Some (int (10 * t + u))"
proof -
  have T: "t = 0 \<or> t = 1 \<or> t = 2 \<or> t = 3 \<or> t = 4 \<or> t = 5 \<or> t = 6 \<or> t = 7 \<or> t = 8 \<or> t = 9 \<or> t = 10"
    using assms by presburger
  have U: "u = 0 \<or> u = 1 \<or> u = 2 \<or> u = 3 \<or> u = 4 \<or> u = 5 \<or> u = 6 \<or> u = 7 \<or> u = 8 \<or> u = 9"
    using assms by presburger
  show ?thesis using T U
    by (elim disjE; simp add: romanTens_def romanUnits_def romanToArabic_def romanMap_def toUpperCase_def)
qed

lemma numeral_letters:
  assumes "t \<le> 10" "u \<le> 9"
  shows "list_all (\<lambda>c. c \<in> set (js ''ivxlc'')) (romanTens t @ romanUnits u)"
proof -
  have T: "t = 0 \<or> t = 1 \<or> t = 2 \<or> t = 3 \<or> t = 4 \<or> t = 5 \<or> t = 6 \<or> t = 7 \<or> t = 8 \<or> t = 9 \<or> t = 10"
    using assms by presburger
  have U: "u = 0 \<or> u = 1 \<or> u = 2 \<or> u = 3 \<or> u = 4 \<or> u = 5 \<or> u = 6 \<or> u = 7 \<or> u = 8 \<or> u = 9"
    using assms by presburger
  show ?thesis using T U
    by (elim disjE; simp add: romanTens_def romanUnits_def)
qed

lemma lower_roman: "toLowerChar c \<in> set (js ''ivxlc'') \<Longrightarrow> isRomanLetter c"
  by (auto simp: toLowerChar_def isRomanLetter_def split: if_splits)

text \<open>
  C8. For every integer n from 1 to 100 and every text that spells the Roman numeral of n
  in standard subtractive notation, in whatever mix of upper and lower case, the extractor
  applied to that text alone returns the text itself, casing kept, as the label and n as the
  sort key.
\<close>

theorem roman_roundtrip:
  assumes "1 \<le> n" "n \<le> 100" "map toLowerChar s = romanNumeral n"
  shows "extractPageNumber s = \<lparr>pageNumber = Some s, sortOrder = Some (int n)\<rparr>"
proof -
  have b: "n div 10 \<le> 10" "n mod 10 \<le> 9" using assms by auto
  have L: "list_all (\<lambda>c. c \<in> set (js ''ivxlc'')) (map toLowerChar s)"
    using numeral_letters[OF b] assms(3) by (simp add: romanNumeral_def)
  then have R: "list_all isRomanLetter s"
    using lower_roman by (auto simp: list_all_iff)
  have V: "romanToArabic (toUpperCase (romanNumeral n)) = Some (int n)"
    using numeral_value[OF b] by (simp add: romanNumeral_def)
  have ne: "s \<noteq> []"
  proof
    assume "s = []"
    then have "romanToArabic (toUpperCase (romanNumeral n)) = Some 0"
      using assms(3) by (simp add: romanToArabic_def toUpperCase_def)
    with V assms(1) show False by simp
  qed
  show ?thesis
    using extract_roman[OF ne R] V upper_of_lower[of s] assms(3) by simp
qed

theorem roman_roundtrip_witness:
  "(1::nat) \<le> 94 \<and> (94::nat) \<le> 100 \<and> map toLowerChar (js ''XCiv'') = romanNumeral 94 \<and>
   extractPageNumber (js ''XCiv'') = \<lparr>pageNumber = Some (js ''XCiv''), sortOrder = Some 94\<rparr>"
proof -
  have h: "map toLowerChar (js ''XCiv'') = romanNumeral 94"
    by (simp add: toLowerChar_def romanNumeral_def romanTens_def romanUnits_def)
  show ?thesis using roman_roundtrip[of 94 "js ''XCiv''"] h by simp
qed

subsection \<open>The labels the extractor returns\<close>

text \<open>Every capture of the five patterns is a non-empty run of digits or of Roman-numeral
  letters, \<^verbatim>\<open>trim\<close> does not change it, and so every label that \<^verbatim>\<open>extractPageNumber\<close>
  returns is of that form.\<close>

lemma scanLines_Some: "scanLines m b s = Some cap \<Longrightarrow> \<exists>u. m u = Some cap"
  by (induction s arbitrary: b) (auto split: if_splits option.splits)

lemma scanAll_Some: "scanAll m s = Some cap \<Longrightarrow> \<exists>u. m u = Some cap"
  by (induction s) (auto split: option.splits)

lemma takeWhile_all: "list_all P (takeWhile P xs)"
  by (induction xs) simp_all

lemma matchDigitsLine_cap: "matchDigitsLine u = Some cap \<Longrightarrow> wfLabel (Some cap)"
  by (auto simp: matchDigitsLine_def wfLabel_def Let_def takeWhile_all split: if_splits)

lemma matchDashed_cap: "matchDashed u = Some cap \<Longrightarrow> wfLabel (Some cap)"
  by (auto simp: matchDashed_def wfLabel_def Let_def takeWhile_all split: if_splits list.splits)

lemma afterPrefix_cap: "afterPrefix lit dot u = Some cap \<Longrightarrow> wfLabel (Some cap)"
  by (auto simp: afterPrefix_def wfLabel_def Let_def takeWhile_all split: if_splits option.splits)

lemma matchPagePrefix_cap: "matchPagePrefix u = Some cap \<Longrightarrow> wfLabel (Some cap)"
  by (auto simp: matchPagePrefix_def split: option.splits dest: afterPrefix_cap)

lemma matchRomanLine_cap: "matchRomanLine u = Some cap \<Longrightarrow> wfLabel (Some cap)"
  by (auto simp: matchRomanLine_def wfLabel_def Let_def takeWhile_all split: if_splits)

lemma matchBracketed_cap: "matchBracketed u = Some cap \<Longrightarrow> wfLabel (Some cap)"
  by (auto simp: matchBracketed_def wfLabel_def Let_def takeWhile_all split: if_splits list.splits)

lemma patterns_cap: "p \<in> set patterns \<Longrightarrow> p t = Some cap \<Longrightarrow> wfLabel (Some cap)"
  unfolding patterns_def
  by (auto dest!: scanLines_Some scanAll_Some
      dest: matchDigitsLine_cap matchDashed_cap matchPagePrefix_cap matchRomanLine_cap matchBracketed_cap)

lemma trim_wf: "wfLabel (Some cap) \<Longrightarrow> trim cap = cap"
proof -
  assume w: "wfLabel (Some cap)"
  then have ne: "cap \<noteq> []" and cl: "\<forall>c\<in>set cap. \<not> isWhiteSpace c"
    by (auto simp: wfLabel_def list_all_iff isDigit_def isWhiteSpace_def isRomanLetter_def)
  then have "\<not> isWhiteSpace (hd cap)" "\<not> isWhiteSpace (last cap)" by simp_all
  with ne show ?thesis by (rule trim_id)
qed

lemma tryPatterns_wf:
  "(\<And>p cap. p \<in> set ps \<Longrightarrow> p t = Some cap \<Longrightarrow> wfLabel (Some cap)) \<Longrightarrow>
   wfLabel (pageNumber (tryPatterns ps t))"
proof (induction ps)
  case Nil
  then show ?case by (simp add: wfLabel_def)
next
  case (Cons p ps)
  have IH: "wfLabel (pageNumber (tryPatterns ps t))"
    by (rule Cons.IH) (use Cons.prems in auto)
  show ?case
  proof (cases "p t")
    case None
    then show ?thesis using IH by simp
  next
    case (Some m1)
    then have w: "wfLabel (Some m1)" using Cons.prems[of p m1] by simp
    then have t: "trim m1 = m1" by (rule trim_wf)
    show ?thesis using Some w IH
      by (auto simp: t Let_def split: option.splits)
  qed
qed

lemma extract_label_wf: "wfLabel (pageNumber (extractPageNumber t))"
  unfolding extractPageNumber_def by (rule tryPatterns_wf) (rule patterns_cap)

section \<open>The recognition invoker\<close>

declare retryLoop.simps [simp del]

lemma retryLoop_stop_eq:
  "\<not> a < m \<Longrightarrow> retryLoop fn m d a w le = \<lparr>outcome = Inl le, delays = w, calls = a\<rparr>"
  by (simp add: retryLoop.simps[of fn m d a w le])

lemma retryLoop_step_eq:
  "a < m \<Longrightarrow>
   retryLoop fn m d a w le =
     (case fn a of
        Inr v \<Rightarrow> \<lparr>outcome = Inr v, delays = w, calls = a + 1\<rparr>
      | Inl err \<Rightarrow>
          if \<not> is500Error err \<or> a = m - 1
          then \<lparr>outcome = Inl err, delays = w, calls = a + 1\<rparr>
          else retryLoop fn m d (a + 1) (w @ [d * 2 ^ a]) err)"
  by (simp add: retryLoop.simps[of fn m d a w le])

lemma runFrom_stop:
  assumes "a < m" "\<forall>e. fn a = Inl e \<longrightarrow> \<not> is500Error e \<or> a = m - 1"
  shows "runFrom fn m d a w \<lparr>outcome = fn a, delays = w, calls = a + 1\<rparr>"
  unfolding runFrom_def
proof (intro conjI)
  let ?r = "\<lparr>outcome = fn a, delays = w, calls = a + 1\<rparr>"
  have c: "calls ?r = a + 1" and o: "outcome ?r = fn a" and dl: "delays ?r = w" by simp_all
  show "a < calls ?r" unfolding c by simp
  show "calls ?r \<le> m" unfolding c using assms(1) by simp
  show "outcome ?r = fn (calls ?r - 1)" unfolding c o by simp
  show "\<forall>k. a \<le> k \<and> k < calls ?r - 1 \<longrightarrow> (\<exists>e. fn k = Inl e \<and> is500Error e)"
  proof (intro allI impI)
    fix k assume "a \<le> k \<and> k < calls ?r - 1"
    then have "a \<le> k" "k < a" unfolding c by simp_all
    then have False by arith
    then show "\<exists>e. fn k = Inl e \<and> is500Error e" ..
  qed
  show "delays ?r = w @ map (\<lambda>k. d * 2 ^ k) [a..<calls ?r - 1]" unfolding c dl by simp
  show "\<forall>e. outcome ?r = Inl e \<longrightarrow> \<not> is500Error e \<or> calls ?r = m"
  proof (intro allI impI)
    fix e assume "outcome ?r = Inl e"
    then have "fn a = Inl e" unfolding o .
    then have "\<not> is500Error e \<or> a = m - 1" using assms(2) by blast
    then show "\<not> is500Error e \<or> calls ?r = m" unfolding c using assms(1) by auto
  qed
qed

lemma runFrom_step:
  assumes "runFrom fn m d (a + 1) (w @ [d * 2 ^ a]) r" "fn a = Inl err" "is500Error err"
  shows "runFrom fn m d a w r"
proof -
  have c: "a + 1 < calls r" and c2: "calls r \<le> m" and c3: "outcome r = fn (calls r - 1)"
    and c4: "\<forall>k. a + 1 \<le> k \<and> k < calls r - 1 \<longrightarrow> (\<exists>e. fn k = Inl e \<and> is500Error e)"
    and c5: "delays r = (w @ [d * 2 ^ a]) @ map (\<lambda>k. d * 2 ^ k) [a + 1..<calls r - 1]"
    and c6: "\<forall>e. outcome r = Inl e \<longrightarrow> \<not> is500Error e \<or> calls r = m"
    using assms(1) unfolding runFrom_def by blast+
  have u: "[a..<calls r - 1] = a # [a + 1..<calls r - 1]"
    using c by (simp add: upt_conv_Cons)
  have q: "\<exists>e. fn k = Inl e \<and> is500Error e" if "a \<le> k \<and> k < calls r - 1" for k
  proof (cases "k = a")
    case True then show ?thesis using assms(2,3) by simp
  next
    case False
    then have "a + 1 \<le> k \<and> k < calls r - 1" using that by simp
    then show ?thesis using c4 by blast
  qed
  have dl: "delays r = w @ map (\<lambda>k. d * 2 ^ k) [a..<calls r - 1]"
    unfolding u c5 by simp
  show ?thesis
    unfolding runFrom_def
  proof (intro conjI)
    show "a < calls r" using c by simp
    show "calls r \<le> m" by (rule c2)
    show "outcome r = fn (calls r - 1)" by (rule c3)
    show "\<forall>k. a \<le> k \<and> k < calls r - 1 \<longrightarrow> (\<exists>e. fn k = Inl e \<and> is500Error e)" using q by blast
    show "delays r = w @ map (\<lambda>k. d * 2 ^ k) [a..<calls r - 1]" by (rule dl)
    show "\<forall>e. outcome r = Inl e \<longrightarrow> \<not> is500Error e \<or> calls r = m" by (rule c6)
  qed
qed

lemma retryLoop_run: "a < m \<Longrightarrow> runFrom fn m d a w (retryLoop fn m d a w le)"
proof (induction fn m d a w le rule: retryLoop.induct)
  case (1 fn m d a w le)
  show ?case
  proof (cases "fn a")
    case (Inr v)
    have eq: "retryLoop fn m d a w le = \<lparr>outcome = fn a, delays = w, calls = a + 1\<rparr>"
      using Inr 1(2) by (simp add: retryLoop.simps[of fn m d a w le])
    show ?thesis unfolding eq by (rule runFrom_stop) (use Inr 1(2) in simp_all)
  next
    case (Inl err)
    show ?thesis
    proof (cases "\<not> is500Error err \<or> a = m - 1")
      case True
      have eq: "retryLoop fn m d a w le = \<lparr>outcome = fn a, delays = w, calls = a + 1\<rparr>"
        using Inl True 1(2) by (simp add: retryLoop.simps[of fn m d a w le])
      show ?thesis unfolding eq by (rule runFrom_stop) (use Inl True 1(2) in auto)
    next
      case False
      then have lt: "a + 1 < m" using 1(2) by arith
      have eq: "retryLoop fn m d a w le = retryLoop fn m d (a + 1) (w @ [d * 2 ^ a]) err"
        using Inl False 1(2) by (simp add: retryLoop.simps[of fn m d a w le])
      show ?thesis unfolding eq
        by (rule runFrom_step[OF 1(1)[OF 1(2) Inl False lt] Inl]) (use False in simp)
    qed
  qed
qed

lemma two_failures_then_success:
  assumes "fn 0 = Inl e0" "is500Error e0" "fn (Suc 0) = Inl e1" "is500Error e1"
    "fn (Suc (Suc 0)) = Inr v"
  shows "retryWithBackoffDefault fn = \<lparr>outcome = Inr v, delays = [1000, 2000], calls = 3\<rparr>"
proof -
  have 2: "retryLoop fn 3 1000 (Suc (Suc 0)) [1000, 2000] e1 =
             \<lparr>outcome = Inr v, delays = [1000, 2000], calls = 3\<rparr>"
    using assms(5) by (subst retryLoop_step_eq) simp_all
  have 1: "retryLoop fn 3 1000 (Suc 0) [1000] e0 =
             retryLoop fn 3 1000 (Suc (Suc 0)) [1000, 2000] e1"
    using assms(3,4) by (subst retryLoop_step_eq) simp_all
  have 0: "retryLoop fn 3 1000 0 [] (NonError (js ''undefined'')) =
             retryLoop fn 3 1000 (Suc 0) [1000] e0"
    using assms(1,2) by (subst retryLoop_step_eq) simp_all
  show ?thesis
    unfolding retryWithBackoffDefault_def retryWithBackoff_def 0 1 2 ..
qed

text \<open>
  C3. With a maximum of \<open>maxRetries\<close> attempts (3 by default) and an initial delay (1000 ms by
  default), \<^verbatim>\<open>retryWithBackoff\<close> calls the recognizer at least once and at most \<open>maxRetries\<close>
  times; it calls again only after a transient (server-side) failure, so a failure that is
  not transient is never retried; before the retry that follows call \<open>k\<close> (from 0) it waits
  the initial delay times \<open>2 ^ k\<close>; its outcome is that of the last call, and when that is a
  failure, the failure is not transient or the attempts are used up. In particular, with
  the defaults, transient failures of the first two calls and a success of the third give
  the successful result after exactly the two delays 1000 and 2000.
\<close>

theorem retryWithBackoff_policy:
  assumes "0 < maxRetries"
  shows "1 \<le> calls (retryWithBackoff fn maxRetries initialDelay) \<and>
         calls (retryWithBackoff fn maxRetries initialDelay) \<le> maxRetries \<and>
         outcome (retryWithBackoff fn maxRetries initialDelay) =
           fn (calls (retryWithBackoff fn maxRetries initialDelay) - 1) \<and>
         (\<forall>k. k < calls (retryWithBackoff fn maxRetries initialDelay) - 1 \<longrightarrow>
              (\<exists>e. fn k = Inl e \<and> is500Error e)) \<and>
         delays (retryWithBackoff fn maxRetries initialDelay) =
           map (\<lambda>k. initialDelay * 2 ^ k)
             [0..<calls (retryWithBackoff fn maxRetries initialDelay) - 1] \<and>
         (\<forall>e. outcome (retryWithBackoff fn maxRetries initialDelay) = Inl e \<longrightarrow>
              \<not> is500Error e \<or> calls (retryWithBackoff fn maxRetries initialDelay) = maxRetries) \<and>
         (\<forall>e0 e1 v. fn 0 = Inl e0 \<and> is500Error e0 \<and> fn 1 = Inl e1 \<and> is500Error e1 \<and> fn 2 = Inr v \<longrightarrow>
              retryWithBackoffDefault fn = \<lparr>outcome = Inr v, delays = [1000, 2000], calls = 3\<rparr>)"
proof -
  let ?r = "retryWithBackoff fn maxRetries initialDelay"
  have R: "runFrom fn maxRetries initialDelay 0 [] ?r"
    unfolding retryWithBackoff_def by (rule retryLoop_run[OF assms])
  have c1: "0 < calls ?r" and c2: "calls ?r \<le> maxRetries"
    and c3: "outcome ?r = fn (calls ?r - 1)"
    and c4: "\<forall>k. 0 \<le> k \<and> k < calls ?r - 1 \<longrightarrow> (\<exists>e. fn k = Inl e \<and> is500Error e)"
    and c5: "delays ?r = [] @ map (\<lambda>k. initialDelay * 2 ^ k) [0..<calls ?r - 1]"
    and c6: "\<forall>e. outcome ?r = Inl e \<longrightarrow> \<not> is500Error e \<or> calls ?r = maxRetries"
    using R unfolding runFrom_def by blast+
  show ?thesis
  proof (intro conjI)
    show "1 \<le> calls ?r" using c1 by arith
    show "calls ?r \<le> maxRetries" by (rule c2)
    show "outcome ?r = fn (calls ?r - 1)" by (rule c3)
    show "\<forall>k. k < calls ?r - 1 \<longrightarrow> (\<exists>e. fn k = Inl e \<and> is500Error e)" using c4 by blast
    show "delays ?r = map (\<lambda>k. initialDelay * 2 ^ k) [0..<calls ?r - 1]"
      using c5 by (simp only: append_Nil)
    show "\<forall>e. outcome ?r = Inl e \<longrightarrow> \<not> is500Error e \<or> calls ?r = maxRetries" by (rule c6)
    show "\<forall>e0 e1 v. fn 0 = Inl e0 \<and> is500Error e0 \<and> fn 1 = Inl e1 \<and> is500Error e1 \<and> fn 2 = Inr v \<longrightarrow>
            retryWithBackoffDefault fn = \<lparr>outcome = Inr v, delays = [1000, 2000], calls = 3\<rparr>"
    proof (intro allI impI, elim conjE)
      fix e0 e1 v
      assume "fn 0 = Inl e0" "is500Error e0" "fn 1 = Inl e1" "is500Error e1" "fn 2 = Inr v"
      then show "retryWithBackoffDefault fn = \<lparr>outcome = Inr v, delays = [1000, 2000], calls = 3\<rparr>"
        by (intro two_failures_then_success[of fn e0 e1 v]) (simp_all add: numeral_2_eq_2)
    qed
  qed
qed

theorem retryWithBackoff_policy_witness:
  "(0::nat) < 3 \<and> calls (retryWithBackoff flaky 3 1000) \<le> 3 \<and>
   is500Error (Error (js ''500 Internal Server Error'')) \<and>
   retryWithBackoffDefault flaky = \<lparr>outcome = Inr 7, delays = [1000, 2000], calls = 3\<rparr>"
proof -
  have h: "(0::nat) < 3" by simp
  have tr: "is500Error (Error (js ''500 Internal Server Error''))"
    by (simp add: is500Error_def messageOrString_def)
  have f: "flaky 0 = Inl (Error (js ''500 Internal Server Error''))"
    "flaky 1 = Inl (Error (js ''500 Internal Server Error''))" "flaky 2 = Inr 7"
    by (simp_all add: flaky_def)
  note t = retryWithBackoff_policy[OF h, of flaky 1000]
  note a = t[THEN conjunct2, THEN conjunct1]
  note l = t[THEN conjunct2, THEN conjunct2, THEN conjunct2, THEN conjunct2, THEN conjunct2,
      THEN conjunct2, rule_format,
      of "Error (js ''500 Internal Server Error'')" "Error (js ''500 Internal Server Error'')" 7]
  have b: "retryWithBackoffDefault flaky = \<lparr>outcome = Inr 7, delays = [1000, 2000], calls = 3\<rparr>"
    by (rule l) (intro conjI f tr)
  show ?thesis by (intro conjI h a tr b)
qed

section \<open>The storage layer\<close>

lemmas db_defs = getPageById_def getProjectById_def updatePage_def updateProject_def
  updatePageStatus_def completedUpdate_def messageOf_def

lemmas example_defs = ownProject_def examplePage_def exampleDb_def recognized_def
  unrecognized_def labelledPage_def romanDb_def mixedDb_def tiedDb_def failedPage_def
  batchDb_def batchOCR_def

text \<open>Reading a row after an update of that row, and after an update of another table.\<close>

lemma find_update_same:
  "find (\<lambda>p. page_id p = i) ps = Some pg \<Longrightarrow> page_id (f pg) = i \<Longrightarrow>
   find (\<lambda>p. page_id p = i) (map (\<lambda>p. if page_id p = i then f p else p) ps) = Some (f pg)"
  by (induction ps) (auto split: if_splits)

lemma getPageById_id: "getPageById i d = Some pg \<Longrightarrow> page_id pg = i"
  by (auto simp: getPageById_def find_Some_iff)

lemma getPageById_updatePage:
  "getPageById i d = Some pg \<Longrightarrow> page_id (f pg) = i \<Longrightarrow>
   getPageById i (updatePage i f d) = Some (f pg)"
  by (simp add: getPageById_def updatePage_def find_update_same)

lemma getProjectById_updatePage [simp]: "getProjectById i (updatePage j f d) = getProjectById i d"
  by (simp add: getProjectById_def updatePage_def)

lemma getProjectById_updatePageStatus [simp]:
  "getProjectById i (updatePageStatus om j st msg d) = getProjectById i d"
  by (simp add: updatePageStatus_def)

lemma getPageById_updateProject [simp]: "getPageById i (updateProject j f d) = getPageById i d"
  by (simp add: getPageById_def updateProject_def)

lemma getPageById_updatePageStatus:
  "getPageById i d = Some pg \<Longrightarrow>
   getPageById i (updatePageStatus om i st msg d) =
     Some (pg\<lparr>page_status := st,
               page_errorMessage :=
                 (case msg of
                    Some m \<Rightarrow> Some m
                  | None \<Rightarrow> (case om of LeavesMessage \<Rightarrow> page_errorMessage pg | ClearsMessage \<Rightarrow> None))\<rparr>)"
  unfolding updatePageStatus_def
  by (rule getPageById_updatePage) (auto dest: getPageById_id)

lemma db_projects_updatePage [simp]: "db_projects (updatePage i f d) = db_projects d"
  by (simp add: updatePage_def)

lemma db_projects_updatePageStatus [simp]: "db_projects (updatePageStatus om i st msg d) = db_projects d"
  by (simp add: updatePageStatus_def)

lemma find_update_project:
  "find (\<lambda>q. project_id q = i) qs = Some proj \<Longrightarrow> project_id (f proj) = i \<Longrightarrow>
   find (\<lambda>q. project_id q = i) (map (\<lambda>q. if project_id q = i then f q else q) qs) = Some (f proj)"
  by (induction qs) (auto split: if_splits)

lemma getProjectById_id: "getProjectById i d = Some proj \<Longrightarrow> project_id proj = i"
  by (auto simp: getProjectById_def find_Some_iff)

lemma getProjectById_updateProject:
  "getProjectById i d = Some proj \<Longrightarrow> project_id (f proj) = i \<Longrightarrow>
   getProjectById i (updateProject i f d) = Some (f proj)"
  by (simp add: getProjectById_def updateProject_def find_update_project)

section \<open>Processing and retrying one page\<close>

text \<open>
  C4. The specification asks that a process or retry request moves a page to
  \<open>processing\<close> only from \<open>pending\<close> or \<open>failed\<close>, and that a request on a completed page is
  rejected and leaves the page as it is. \<^verbatim>\<open>retrySingle\<close> has that guard (lemma
  \<open>retrySingle_rejects\<close>); \<^verbatim>\<open>processOCR\<close> has none. On a completed page of a project that
  counts one processed page, \<^verbatim>\<open>processOCR\<close> runs the recognizer again: when it succeeds the
  text is overwritten and the project counts two processed pages for its one page, and when
  it fails the completed page becomes \<open>failed\<close>.
\<close>

theorem processOCR_reprocesses_completed:
  "fst (processOCR om recognized 1 1 (exampleDb completed None 1)) = Inr (Some (js ''7'')) \<and>
   map project_processedPages (db_projects (snd (processOCR om recognized 1 1 (exampleDb completed None 1)))) = [2] \<and>
   map page_extractedText (db_pages (snd (processOCR om recognized 1 1 (exampleDb completed None 1)))) = [Some (js ''new text'')] \<and>
   map page_status (db_pages (snd (processOCR om unrecognized 1 1 (exampleDb completed None 1)))) = [failed]"
  by (simp add: processOCR_def db_defs example_defs)

lemma retrySingle_rejects:
  assumes "getPageById pid d = Some pg" "getProjectById (page_projectId pg) d = Some proj"
    "project_userId proj = userId" "page_status pg = completed \<or> page_status pg = processing"
  shows "retrySingle om performOCR userId pid d =
           (Inl (Error (js ''Only failed or pending pages can be processed'')), d)"
  using assms by (auto simp: retrySingle_def)

lemma processOCR_error_text:
  "map page_status
     (db_pages (snd (processOCR om unrecognized 1 1 (exampleDb pending None 0)))) = [failed] \<and>
   map page_errorMessage
     (db_pages (snd (processOCR om unrecognized 1 1 (exampleDb pending None 0)))) =
     [Some (js ''OCR processing failed: 400 Bad Request'')] \<and>
   map page_status
     (db_pages (snd (processOCR om recognized 1 1
        (snd (processOCR om unrecognized 1 1 (exampleDb pending None 0)))))) = [completed] \<and>
   map page_errorMessage
     (db_pages (snd (processOCR om recognized 1 1
        (snd (processOCR om unrecognized 1 1 (exampleDb pending None 0)))))) =
     [case om of
        LeavesMessage \<Rightarrow> Some (js ''OCR processing failed: 400 Bad Request'')
      | ClearsMessage \<Rightarrow> None]"
  by (cases om) (simp_all add: processOCR_def db_defs example_defs)


lemma retrySingle_clears_error:
  assumes "getPageById pid d = Some pg" "getProjectById (page_projectId pg) d = Some proj"
    "project_userId proj = userId" "page_status pg = failed \<or> page_status pg = pending"
    "performOCR (page_imageUrl pg) = Inr ocrResult"
  shows "map_option (\<lambda>p. (page_status p, page_errorMessage p))
           (getPageById pid (snd (retrySingle om performOCR userId pid d))) =
         Some (completed, None)"
proof -
  have 1: "getPageById pid (updatePageStatus om pid processing None d) = Some (pg\<lparr>page_status := processing,
               page_errorMessage := (case om of LeavesMessage \<Rightarrow> page_errorMessage pg | ClearsMessage \<Rightarrow> None)\<rparr>)"
    using getPageById_updatePageStatus[OF assms(1), of om processing None] by simp
  have 2: "getPageById pid (updatePage pid (completedUpdate True ocrResult) (updatePageStatus om pid processing None d))
       = Some (completedUpdate True ocrResult (pg\<lparr>page_status := processing,
               page_errorMessage := (case om of LeavesMessage \<Rightarrow> page_errorMessage pg | ClearsMessage \<Rightarrow> None)\<rparr>))"
    by (rule getPageById_updatePage[OF 1]) (use getPageById_id[OF assms(1)] in \<open>simp add: completedUpdate_def\<close>)
  show ?thesis using assms 2 by (auto simp: retrySingle_def completedUpdate_def)
qed

text \<open>
  C5. The claim that a recognition failure is never thrown to the caller is false: both
  procedures throw after they have recorded the failure.
\<close>

theorem failure_is_thrown_counterexample:
  "fst (processOCR LeavesMessage unrecognized 1 1 (exampleDb pending None 0)) =
     Inl (Error (js ''OCR processing failed: 400 Bad Request'')) \<and>
   fst (retrySingle LeavesMessage unrecognized 1 1 (exampleDb failed (Some (js ''earlier failure'')) 0)) =
     Inl (Error (js ''OCR processing failed: 400 Bad Request''))"
  by (simp add: processOCR_def retrySingle_def db_defs example_defs)

text \<open>
  C5, as the code has it. For every authorised \<^verbatim>\<open>processOCR\<close> request on an existing page,
  and every \<^verbatim>\<open>retrySingle\<close> request on an existing page that is \<open>failed\<close> or \<open>pending\<close>, a
  failure of the recognizer ends the operation with the page in status \<open>failed\<close> and the
  message of the failure as its error text, and the failure is then thrown to the caller:
  \<^verbatim>\<open>processOCR\<close> throws the error it caught, \<^verbatim>\<open>retrySingle\<close> a new error with the same
  message.
\<close>

theorem failure_recorded_then_thrown:
  assumes "getPageById pid d = Some pg" "getProjectById (page_projectId pg) d = Some proj"
    "project_userId proj = userId" "performOCR (page_imageUrl pg) = Inl err"
  shows "fst (processOCR om performOCR userId pid d) = Inl err \<and>
         map_option (\<lambda>p. (page_status p, page_errorMessage p))
           (getPageById pid (snd (processOCR om performOCR userId pid d))) =
           Some (failed, Some (messageOf err)) \<and>
         (page_status pg = failed \<or> page_status pg = pending \<longrightarrow>
            fst (retrySingle om performOCR userId pid d) = Inl (Error (messageOf err)) \<and>
            map_option (\<lambda>p. (page_status p, page_errorMessage p))
              (getPageById pid (snd (retrySingle om performOCR userId pid d))) =
              Some (failed, Some (messageOf err)))"
proof -
  let ?p1 = "pg\<lparr>page_status := processing,
               page_errorMessage := (case om of LeavesMessage \<Rightarrow> page_errorMessage pg | ClearsMessage \<Rightarrow> None)\<rparr>"
  let ?d1 = "updatePageStatus om pid processing None d"
  have 1: "getPageById pid ?d1 = Some ?p1"
    using getPageById_updatePageStatus[OF assms(1), of om processing None] by simp
  have 2: "map_option (\<lambda>p. (page_status p, page_errorMessage p))
             (getPageById pid (updatePageStatus om pid failed (Some (messageOf err)) ?d1)) =
           Some (failed, Some (messageOf err))"
    using getPageById_updatePageStatus[OF 1, of om failed "Some (messageOf err)"] by simp
  have 3: "map_option (\<lambda>p. (page_status p, page_errorMessage p))
             (getPageById pid (updatePage pid
                (\<lambda>p. p\<lparr>page_status := failed, page_errorMessage := Some (messageOf err)\<rparr>) ?d1)) =
           Some (failed, Some (messageOf err))"
    using getPageById_updatePage[OF 1, of "\<lambda>p. p\<lparr>page_status := failed, page_errorMessage := Some (messageOf err)\<rparr>"]
      getPageById_id[OF assms(1)] by simp
  have P: "processOCR om performOCR userId pid d =
             (Inl err, updatePageStatus om pid failed (Some (messageOf err)) ?d1)"
    using assms by (simp add: processOCR_def)
  have R: "page_status pg = failed \<or> page_status pg = pending \<Longrightarrow>
           retrySingle om performOCR userId pid d =
             (Inl (Error (messageOf err)),
              updatePage pid (\<lambda>p. p\<lparr>page_status := failed, page_errorMessage := Some (messageOf err)\<rparr>) ?d1)"
    using assms by (auto simp: retrySingle_def)
  show ?thesis using 2 3 by (auto simp: P R)
qed

lemma example_hyps:
  "getPageById 1 (exampleDb failed (Some (js ''earlier failure'')) 0) =
     Some (examplePage failed (Some (js ''earlier failure'')))"
  "getProjectById (page_projectId (examplePage failed (Some (js ''earlier failure''))))
     (exampleDb failed (Some (js ''earlier failure'')) 0) =
     Some (ownProject 1 0)"
  "project_userId (ownProject 1 0) = 1"
  "unrecognized (page_imageUrl (examplePage failed (Some (js ''earlier failure'')))) =
     Inl (Error (js ''OCR processing failed: 400 Bad Request''))"
  by (simp_all add: db_defs example_defs)

theorem failure_recorded_then_thrown_witness:
  "getPageById 1 (exampleDb failed (Some (js ''earlier failure'')) 0) =
     Some (examplePage failed (Some (js ''earlier failure''))) \<and>
   page_status (examplePage failed (Some (js ''earlier failure''))) = failed \<and>
   fst (retrySingle LeavesMessage unrecognized 1 1 (exampleDb failed (Some (js ''earlier failure'')) 0)) =
     Inl (Error (js ''OCR processing failed: 400 Bad Request'')) \<and>
   map_option (\<lambda>p. (page_status p, page_errorMessage p))
     (getPageById 1 (snd (retrySingle LeavesMessage unrecognized 1 1
        (exampleDb failed (Some (js ''earlier failure'')) 0)))) =
     Some (failed, Some (js ''OCR processing failed: 400 Bad Request''))"
proof -
  note t = failure_recorded_then_thrown[where performOCR = unrecognized and om = LeavesMessage, OF example_hyps]
  have s: "page_status (examplePage failed (Some (js ''earlier failure''))) = failed"
    by (simp add: examplePage_def)
  have m: "messageOf (Error (js ''OCR processing failed: 400 Bad Request'')) =
           js ''OCR processing failed: 400 Bad Request''"
    by (simp add: messageOf_def)
  from t s have
    "fst (retrySingle LeavesMessage unrecognized 1 1 (exampleDb failed (Some (js ''earlier failure'')) 0)) =
       Inl (Error (messageOf (Error (js ''OCR processing failed: 400 Bad Request'')))) \<and>
     map_option (\<lambda>p. (page_status p, page_errorMessage p))
       (getPageById 1 (snd (retrySingle LeavesMessage unrecognized 1 1
          (exampleDb failed (Some (js ''earlier failure'')) 0)))) =
       Some (failed, Some (messageOf (Error (js ''OCR processing failed: 400 Bad Request''))))"
    by blast
  then show ?thesis unfolding m using example_hyps(1) s by blast
qed

section \<open>Retrying the failed pages of a project\<close>

lemma retryPages_results:
  "fst (retryPages om ocr k ps res d) = res @ map (entryOf ocr) (zip [k..<k + length ps] ps)"
proof (induction ps arbitrary: k res d)
  case Nil
  then show ?case by simp
next
  case (Cons pg rest)
  have "k < k + length (pg # rest)" by simp
  from upt_conv_Cons[OF this]
  have u: "[k..<k + length (pg # rest)] = k # [k + 1..<(k + 1) + length rest]"
    by simp
  show ?case
    unfolding u by (cases "ocr k (page_imageUrl pg)") (simp_all add: Cons.IH entryOf_def Let_def)
qed

lemma retryPages_projects: "db_projects (snd (retryPages om ocr k ps res d)) = db_projects d"
proof (induction ps arbitrary: k res d)
  case Nil
  then show ?case by simp
next
  case (Cons pg rest)
  show ?case
    by (cases "ocr k (page_imageUrl pg)") (simp_all add: Cons.IH Let_def)
qed

text \<open>
  C2. For an authorised request, \<^verbatim>\<open>retryFailed\<close> returns a report with exactly one entry
  per failed page, in the order of the pages: the entry of a page whose recognition
  succeeded is a success without error text, the entry of a page whose recognition failed
  is a failure that carries the message of the error; no failure ends the loop. The
  processed-pages counter of the project is its value before the batch plus the number of
  successes of the report, written once after the loop.
\<close>

theorem retryFailed_report:
  assumes "getProjectById projectId d = Some proj" "project_userId proj = userId"
    and "failedPages = filter (\<lambda>p. page_status p = failed) (getPagesByProjectId ro projectId d)"
  shows "\<exists>rep d'.
           retryFailed ro om performOCRAt userId projectId d = (Inr rep, d') \<and>
           length (results rep) = length failedPages \<and>
           (\<forall>k<length failedPages.
              pageId (results rep ! k) = page_id (failedPages ! k) \<and>
              (case performOCRAt k (page_imageUrl (failedPages ! k)) of
                 Inr _ \<Rightarrow> success (results rep ! k) \<and> error (results rep ! k) = None
               | Inl err \<Rightarrow> \<not> success (results rep ! k) \<and> error (results rep ! k) = Some (messageOf err))) \<and>
           map_option project_processedPages (getProjectById projectId d') =
             Some (project_processedPages proj + int (length (filter success (results rep))))"
proof (cases "failedPages = []")
  case True
  then show ?thesis using assms by (simp add: retryFailed_def)
next
  case False
  obtain res d1 where r: "retryPages om performOCRAt 0 failedPages [] d = (res, d1)"
    by (cases "retryPages om performOCRAt 0 failedPages [] d")
  have res: "res = map (entryOf performOCRAt) (zip [0..<length failedPages] failedPages)"
    using retryPages_results[of om performOCRAt 0 failedPages "[]" d] r by simp
  have pr: "db_projects d1 = db_projects d"
    using retryPages_projects[of om performOCRAt 0 failedPages "[]" d] r by simp
  have g1: "getProjectById projectId d1 = Some proj"
    using assms(1) pr by (simp add: getProjectById_def)
  let ?n = "length (filter success res)"
  let ?d2 = "if ?n > 0
             then updateProject projectId
                    (\<lambda>q. q\<lparr>project_processedPages := project_processedPages proj + int ?n\<rparr>) d1
             else d1"
  have eq: "retryFailed ro om performOCRAt userId projectId d =
              (Inr \<lparr>retriedCount = length failedPages, successCount = Some ?n, results = res\<rparr>, ?d2)"
    using assms False r by (simp add: retryFailed_def Let_def)
  have cnt: "map_option project_processedPages (getProjectById projectId ?d2) =
               Some (project_processedPages proj + int ?n)"
  proof (cases "?n > 0")
    case True
    then show ?thesis
      using getProjectById_updateProject[OF g1,
          of "\<lambda>q. q\<lparr>project_processedPages := project_processedPages proj + int ?n\<rparr>"]
        getProjectById_id[OF assms(1)] by simp
  next
    case False
    then show ?thesis using g1 by simp
  qed
  have len: "length res = length failedPages" unfolding res by simp
  have ent: "pageId (res ! k) = page_id (failedPages ! k) \<and>
             (case performOCRAt k (page_imageUrl (failedPages ! k)) of
                Inr _ \<Rightarrow> success (res ! k) \<and> error (res ! k) = None
              | Inl err \<Rightarrow> \<not> success (res ! k) \<and> error (res ! k) = Some (messageOf err))"
    if "k < length failedPages" for k
  proof -
    have "res ! k = entryOf performOCRAt (k, failedPages ! k)"
      unfolding res using that by simp
    then show ?thesis by (simp add: entryOf_def split: sum.splits)
  qed
  let ?rep = "\<lparr>retriedCount = length failedPages, successCount = Some ?n, results = res\<rparr>"
  have rr: "results ?rep = res" by simp
  show ?thesis
  proof (intro exI conjI)
    show "retryFailed ro om performOCRAt userId projectId d = (Inr ?rep, ?d2)" by (rule eq)
    show "length (results ?rep) = length failedPages" unfolding rr by (rule len)
    show "\<forall>k<length failedPages.
              pageId (results ?rep ! k) = page_id (failedPages ! k) \<and>
              (case performOCRAt k (page_imageUrl (failedPages ! k)) of
                 Inr _ \<Rightarrow> success (results ?rep ! k) \<and> error (results ?rep ! k) = None
               | Inl err \<Rightarrow> \<not> success (results ?rep ! k) \<and> error (results ?rep ! k) = Some (messageOf err))"
      unfolding rr using ent by blast
    show "map_option project_processedPages (getProjectById projectId ?d2) =
             Some (project_processedPages proj + int (length (filter success (results ?rep))))"
      unfolding rr by (rule cnt)
  qed
qed

lemma batch_hyps:
  "getProjectById 1 batchDb = Some (ownProject 5 0)" "project_userId (ownProject 5 0) = 1"
  "db_pages batchDb = filter (\<lambda>p. page_status p = failed) (getPagesByProjectId ByCreation 1 batchDb)"
  by (simp_all add: db_defs example_defs getPagesByProjectId_def)

lemma batch_run:
  "fst (retryFailed ByCreation LeavesMessage batchOCR 1 1 batchDb) =
     Inr \<lparr>retriedCount = 5, successCount = Some 3,
          results =
            [\<lparr>pageId = 1, success = True, error = None\<rparr>,
             \<lparr>pageId = 2, success = False, error = Some (js ''OCR processing failed: 400 Bad Request'')\<rparr>,
             \<lparr>pageId = 3, success = True, error = None\<rparr>,
             \<lparr>pageId = 4, success = False, error = Some (js ''OCR processing failed: 400 Bad Request'')\<rparr>,
             \<lparr>pageId = 5, success = True, error = None\<rparr>]\<rparr>"
  "map project_processedPages (db_projects (snd (retryFailed ByCreation LeavesMessage batchOCR 1 1 batchDb))) = [3]"
  "map page_status (db_pages (snd (retryFailed ByCreation LeavesMessage batchOCR 1 1 batchDb))) =
     [completed, failed, completed, failed, completed]"
  by (simp_all add: retryFailed_def getPagesByProjectId_def db_defs example_defs)

text \<open>The example of the specification: five failed pages, of which three are recognized
  and two are not.\<close>

theorem retryFailed_report_witness:
  "getProjectById 1 batchDb = Some (ownProject 5 0) \<and> project_userId (ownProject 5 0) = 1 \<and>
   length (db_pages batchDb) = 5 \<and>
   (\<exists>rep d'. retryFailed ByCreation LeavesMessage batchOCR 1 1 batchDb = (Inr rep, d') \<and>
      length (results rep) = 5 \<and> map success (results rep) = [True, False, True, False, True] \<and>
      map_option project_processedPages (getProjectById 1 d') = Some 3)"
proof -
  from retryFailed_report[OF batch_hyps, of LeavesMessage batchOCR]
  obtain rep d' where
    r: "retryFailed ByCreation LeavesMessage batchOCR 1 1 batchDb = (Inr rep, d')"
    and l: "length (results rep) = length (db_pages batchDb)"
    and c: "map_option project_processedPages (getProjectById 1 d') =
            Some (project_processedPages (ownProject 5 0) + int (length (filter success (results rep))))"
    by blast
  have n: "length (db_pages batchDb) = 5" by (simp add: example_defs)
  have rep: "results rep =
            [\<lparr>pageId = 1, success = True, error = None\<rparr>,
             \<lparr>pageId = 2, success = False, error = Some (js ''OCR processing failed: 400 Bad Request'')\<rparr>,
             \<lparr>pageId = 3, success = True, error = None\<rparr>,
             \<lparr>pageId = 4, success = False, error = Some (js ''OCR processing failed: 400 Bad Request'')\<rparr>,
             \<lparr>pageId = 5, success = True, error = None\<rparr>]"
    using batch_run(1) unfolding r by simp
  have s: "map success (results rep) = [True, False, True, False, True]" unfolding rep by simp
  have c': "map_option project_processedPages (getProjectById 1 d') = Some 3"
    using c unfolding rep by (simp add: ownProject_def)
  show ?thesis using batch_hyps(1,2) n r l s c' by auto
qed

section \<open>Reordering the pages of a project\<close>

lemmas sort_defs = reorder_def getPagesByProjectId_def sortedPages_def sortBy_def comparePages_def
  truthy_def labelText_def parseInt_def digitsValue_def localeCompare_def collationPrimary_def
  collationCase_def

subsection \<open>The comparator is the order of the keys\<close>

lemma lexCompare_less: "lexCompare xs ys < 0 \<longleftrightarrow> xs < ys"
  by (induction xs ys rule: lexCompare.induct) auto

lemma lexCompare_eq: "lexCompare xs ys = 0 \<longleftrightarrow> xs = ys"
  by (induction xs ys rule: lexCompare.induct) auto

lemma lexCompare_le: "lexCompare xs ys \<le> 0 \<longleftrightarrow> xs \<le> ys"
  using lexCompare_less[of xs ys] lexCompare_eq[of xs ys] by (auto simp: le_less)

lemma localeCompare_le:
  "localeCompare a b \<le> 0 \<longleftrightarrow>
   (map collationPrimary a, map collationCase a) \<le> (map collationPrimary b, map collationCase b)"
  using lexCompare_less[of "map collationPrimary a" "map collationPrimary b"]
    lexCompare_eq[of "map collationPrimary a" "map collationPrimary b"]
    lexCompare_le[of "map collationCase a" "map collationCase b"]
  by (auto simp: localeCompare_def Let_def less_eq_prod_def)

lemma parseInt_digits: "s \<noteq> [] \<Longrightarrow> list_all isDigit s \<Longrightarrow> parseInt s = Some (digitsValue s)"
proof -
  assume a: "s \<noteq> []" "list_all isDigit s"
  then obtain c cs where s: "s = c # cs" by (cases s) auto
  have c: "isDigit c" using a s by simp
  then have w: "\<not> isWhiteSpace c" "c \<noteq> 45" "c \<noteq> 43" by (auto simp: isDigit_def isWhiteSpace_def)
  have tw: "takeWhile isDigit (c # cs) = c # cs" using a s by (simp add: list_all_iff)
  show ?thesis unfolding parseInt_def s using w tw by (simp add: Let_def)
qed

lemma parseInt_roman: "s \<noteq> [] \<Longrightarrow> list_all isRomanLetter s \<Longrightarrow> parseInt s = None"
proof -
  assume a: "s \<noteq> []" "list_all isRomanLetter s"
  then obtain c cs where s: "s = c # cs" by (cases s) auto
  have c: "isRomanLetter c" using a s by simp
  then have w: "\<not> isWhiteSpace c" "c \<noteq> 45" "c \<noteq> 43" "\<not> isDigit c"
    by (auto simp: isDigit_def isWhiteSpace_def isRomanLetter_def)
  show ?thesis unfolding parseInt_def s using w by (simp add: Let_def)
qed


lemma tryPatterns_extracted:
  "(\<And>p cap. p \<in> set ps \<Longrightarrow> p t = Some cap \<Longrightarrow> wfLabel (Some cap)) \<Longrightarrow>
   extractedLabel (pageNumber (tryPatterns ps t))"
proof (induction ps)
  case Nil
  then show ?case by (simp add: extractedLabel_def)
next
  case (Cons p ps)
  have IH: "extractedLabel (pageNumber (tryPatterns ps t))"
    by (rule Cons.IH) (use Cons.prems in auto)
  show ?case
  proof (cases "p t")
    case None
    then show ?thesis using IH by simp
  next
    case (Some m1)
    then have w: "wfLabel (Some m1)" using Cons.prems[of p m1] by simp
    then have tr: "trim m1 = m1" by (rule trim_wf)
    have ne: "m1 \<noteq> []" and cl: "list_all isDigit m1 \<or> list_all isRomanLetter m1"
      using w by (simp_all add: wfLabel_def)
    show ?thesis
    proof (cases "list_all isRomanLetter m1")
      case True
      obtain v where v: "romanToArabic (toUpperCase m1) = Some v"
        using romanToArabic_some[OF True] by auto
      have "tryPatterns (p # ps) t = \<lparr>pageNumber = Some m1, sortOrder = Some v\<rparr>"
        using Some ne True v by (simp add: tr isRomanString_def)
      then show ?thesis using ne True by (simp add: extractedLabel_def)
    next
      case False
      then have dg: "list_all isDigit m1" using cl by simp
      have pi: "parseInt m1 = Some (digitsValue m1)" by (rule parseInt_digits[OF ne dg])
      have "tryPatterns (p # ps) t =
              (if digitsValue m1 > 0 \<and> digitsValue m1 < 10000
               then \<lparr>pageNumber = Some m1, sortOrder = Some (digitsValue m1)\<rparr>
               else tryPatterns ps t)"
        using Some ne False pi by (simp add: tr isRomanString_def)
      then show ?thesis using IH ne dg by (simp add: extractedLabel_def)
    qed
  qed
qed

lemma extract_label_extracted: "extractedLabel (pageNumber (extractPageNumber t))"
  unfolding extractPageNumber_def by (rule tryPatterns_extracted) (rule patterns_cap)

lemma digits_before_letters:
  assumes "a \<noteq> []" "list_all isDigit a" "b \<noteq> []" "list_all isRomanLetter b"
  shows "localeCompare a b = - 1" "localeCompare b a = 1"
proof -
  obtain c cs where a: "a = c # cs" using assms(1) by (cases a) auto
  obtain r rs where b: "b = r # rs" using assms(3) by (cases b) auto
  have "isDigit c" "isRomanLetter r" using assms a b by simp_all
  then have "collationPrimary c < collationPrimary r"
    by (auto simp: collationPrimary_def isDigit_def isRomanLetter_def toLowerChar_def)
  then show "localeCompare a b = - 1" "localeCompare b a = 1"
    by (simp_all add: localeCompare_def a b)
qed

lemma compare_rank:
  assumes "wfLabel (page_detectedPageNumber a)" "wfLabel (page_detectedPageNumber b)"
  shows "(comparePages a b \<le> 0) = (sortRank a \<le> sortRank b)"
proof (cases "page_detectedPageNumber a")
  case None
  then show ?thesis
    by (cases "page_detectedPageNumber b")
       (auto simp: comparePages_def sortRank_def truthy_def split: option.splits)
next
  case (Some s)
  note A = Some
  then have sa: "s \<noteq> []" "list_all isDigit s \<or> list_all isRomanLetter s"
    using assms(1) by (simp_all add: wfLabel_def)
  show ?thesis
  proof (cases "page_detectedPageNumber b")
    case None
    then show ?thesis using A sa
      by (auto simp: comparePages_def sortRank_def truthy_def split: option.splits)
  next
    case (Some t)
    then have sb: "t \<noteq> []" "list_all isDigit t \<or> list_all isRomanLetter t"
      using assms(2) by (simp_all add: wfLabel_def)
    consider (dd) "list_all isDigit s" "list_all isDigit t"
      | (dr) "list_all isDigit s" "list_all isRomanLetter t"
      | (rd) "list_all isRomanLetter s" "list_all isDigit t"
      | (rr) "list_all isRomanLetter s" "list_all isRomanLetter t"
      using sa sb by blast
    then show ?thesis
    proof cases
      case dd
      then show ?thesis using A Some sa sb
        by (auto simp: comparePages_def sortRank_def truthy_def labelText_def parseInt_digits)
    next
      case dr
      then show ?thesis using A Some sa sb digits_before_letters[of s t]
        by (simp add: comparePages_def sortRank_def truthy_def labelText_def parseInt_digits parseInt_roman)
    next
      case rd
      then show ?thesis using A Some sa sb digits_before_letters[of t s]
        by (simp add: comparePages_def sortRank_def truthy_def labelText_def parseInt_digits parseInt_roman)
    next
      case rr
      then show ?thesis using A Some sa sb localeCompare_le[of s t]
        by (auto simp: comparePages_def sortRank_def truthy_def labelText_def parseInt_roman)
    qed
  qed
qed

lemma insertBy_insort:
  assumes "wfLabel (page_detectedPageNumber x)" "\<forall>y\<in>set ys. wfLabel (page_detectedPageNumber y)"
  shows "insertBy comparePages x ys = insort_key sortRank x ys"
  using assms by (induction ys) (simp_all add: compare_rank)

lemma sortedPages_sort_key:
  "\<forall>y\<in>set ps. wfLabel (page_detectedPageNumber y) \<Longrightarrow> sortedPages ps = sort_key sortRank ps"
proof (induction ps)
  case Nil
  then show ?case by (simp add: sortedPages_def sortBy_def)
next
  case (Cons p ps)
  then have "sortedPages ps = sort_key sortRank ps" by simp
  moreover have "\<forall>y\<in>set (sort_key sortRank ps). wfLabel (page_detectedPageNumber y)"
    using Cons.prems by simp
  ultimately show ?case
    using Cons.prems insertBy_insort[of p "sort_key sortRank ps"]
    by (simp add: sortedPages_def sortBy_def)
qed








subsection \<open>The positions that are written back\<close>

lemma positionIn_None: "x \<notin> page_id ` set S \<Longrightarrow> positionIn S i x = None"
  by (induction S arbitrary: i) auto

lemma writeSortOrder_pages:
  "distinct (map page_id S) \<Longrightarrow>
   writeSortOrder S i d =
     d\<lparr>db_pages :=
         map (\<lambda>p. case positionIn S i (page_id p) of None \<Rightarrow> p | Some k \<Rightarrow> p\<lparr>page_sortOrder := k\<rparr>)
           (db_pages d)\<rparr>"
proof (induction S arbitrary: i d)
  case Nil
  then show ?case by simp
next
  case (Cons q qs)
  have n: "positionIn qs (i + 1) (page_id q) = None"
    using Cons.prems by (intro positionIn_None) auto
  have "map (\<lambda>p. case positionIn qs (i + 1) (page_id p) of None \<Rightarrow> p | Some k \<Rightarrow> p\<lparr>page_sortOrder := k\<rparr>)
          (map (\<lambda>p. if page_id p = page_id q then p\<lparr>page_sortOrder := i\<rparr> else p) (db_pages d)) =
        map (\<lambda>p. case positionIn (q # qs) i (page_id p) of None \<Rightarrow> p | Some k \<Rightarrow> p\<lparr>page_sortOrder := k\<rparr>)
          (db_pages d)"
    using n by (auto simp: o_def)
  then show ?case using Cons by (simp add: updatePage_def)
qed

lemma positioned_fields [simp]:
  "page_id (positioned S p) = page_id p"
  "page_projectId (positioned S p) = page_projectId p"
  "page_detectedPageNumber (positioned S p) = page_detectedPageNumber p"
  "page_status (positioned S p) = page_status p"
  by (simp_all add: positioned_def split: option.splits)

lemma hasLabel_positioned [simp]: "hasLabel (positioned S p) = hasLabel p"
  by (simp add: hasLabel_def)

lemma labelNumber_positioned [simp]: "labelNumber (positioned S p) = labelNumber p"
  by (simp add: labelNumber_def)

lemma labelOf_positioned [simp]: "labelOf (positioned S p) = labelOf p"
  by (simp add: labelOf_def)

lemma positionIn_ids: "map page_id S = map page_id T \<Longrightarrow> positionIn S i x = positionIn T i x"
proof (induction S arbitrary: T i)
  case Nil
  then show ?case by simp
next
  case (Cons p ps)
  then obtain q qs where T: "T = q # qs" by (cases T) auto
  with Cons.prems have "page_id p = page_id q" "map page_id ps = map page_id qs" by simp_all
  then show ?case using Cons.IH[of qs "i + 1"] T by simp
qed

lemma positionIn_nth:
  "distinct (map page_id S) \<Longrightarrow> k < length S \<Longrightarrow> positionIn S i (page_id (S ! k)) = Some (i + int k)"
proof (induction S arbitrary: i k)
  case Nil
  then show ?case by simp
next
  case (Cons p ps)
  show ?case
  proof (cases k)
    case 0
    then show ?thesis by simp
  next
    case (Suc j)
    then have j: "j < length ps" using Cons.prems by simp
    then have "page_id (ps ! j) \<in> page_id ` set ps" by (intro imageI nth_mem)
    then have "page_id (ps ! j) \<noteq> page_id p" using Cons.prems(1) by auto
    then show ?thesis using Cons.IH[of j "i + 1"] Cons.prems(1) j Suc by simp
  qed
qed

lemma positioned_sortOrders:
  assumes "distinct (map page_id S)"
  shows "map page_sortOrder (map (positioned S) S) = map int [0..<length S]"
proof (rule nth_equalityI)
  show "length (map page_sortOrder (map (positioned S) S)) = length (map int [0..<length S])" by simp
next
  fix k assume "k < length (map page_sortOrder (map (positioned S) S))"
  then have k: "k < length S" by simp
  then show "map page_sortOrder (map (positioned S) S) ! k = map int [0..<length S] ! k"
    using positionIn_nth[OF assms k, of 0] by (simp add: positioned_def)
qed

lemma positioned_again:
  "map page_id T = map page_id S \<Longrightarrow> positioned T (positioned S p) = positioned S p"
  using positionIn_ids[of T S 0 "page_id p"]
  by (simp add: positioned_def split: option.splits)

lemma comparePages_positioned [simp]:
  "comparePages (positioned S a) (positioned S b) = comparePages a b"
  by (simp add: comparePages_def split: option.splits)

lemma insertBy_map:
  "(\<And>a b. cmp (f a) (f b) = cmp a b) \<Longrightarrow> insertBy cmp (f x) (map f ys) = map f (insertBy cmp x ys)"
  by (induction ys) simp_all

lemma sortBy_map:
  "(\<And>a b. cmp (f a) (f b) = cmp a b) \<Longrightarrow> sortBy cmp (map f xs) = map f (sortBy cmp xs)"
  by (induction xs) (simp_all add: sortBy_def insertBy_map)

lemma sortedPages_positioned: "sortedPages (map (positioned S) ps) = map (positioned S) (sortedPages ps)"
  unfolding sortedPages_def by (rule sortBy_map) simp

lemma mset_insertBy: "mset (insertBy cmp x ys) = add_mset x (mset ys)"
  by (induction ys) simp_all

lemma mset_sortedPages [simp]: "mset (sortedPages ps) = mset ps"
  by (induction ps) (simp_all add: sortedPages_def sortBy_def mset_insertBy)

lemma distinct_ids_sortedPages:
  "distinct (map page_id ps) \<Longrightarrow> distinct (map page_id (sortedPages ps))"
proof -
  assume a: "distinct (map page_id ps)"
  have "mset (map page_id (sortedPages ps)) = mset (map page_id ps)" by simp
  then show ?thesis using a by (metis mset_eq_imp_distinct_iff)
qed

lemma rows_set: "set (getPagesByProjectId ro i d) = {p \<in> set (db_pages d). page_projectId p = i}"
  by (cases ro) (auto simp: getPagesByProjectId_def)

lemma rows_mset:
  "mset (getPagesByProjectId ro i d) = mset (filter (\<lambda>p. page_projectId p = i) (db_pages d))"
  by (cases ro) (simp_all add: getPagesByProjectId_def)

lemma rows_distinct:
  assumes "distinct (map page_id (db_pages d))"
  shows "distinct (map page_id (getPagesByProjectId ro i d))"
proof -
  have "distinct (map page_id (filter (\<lambda>p. page_projectId p = i) (db_pages d)))"
    using assms by (rule distinct_map_filter)
  moreover have "mset (map page_id (getPagesByProjectId ro i d)) =
                 mset (map page_id (filter (\<lambda>p. page_projectId p = i) (db_pages d)))"
    by (simp add: rows_mset)
  ultimately show ?thesis by (metis mset_eq_imp_distinct_iff)
qed

lemma reorder_state:
  assumes "getProjectById i d = Some proj" "project_userId proj = u"
    "distinct (map page_id (db_pages d))"
  shows "reorder ro u i d =
           (Inr True,
            d\<lparr>db_pages := map (positioned (sortedPages (getPagesByProjectId ro i d))) (db_pages d)\<rparr>)"
proof -
  have "distinct (map page_id (sortedPages (getPagesByProjectId ro i d)))"
    by (intro distinct_ids_sortedPages rows_distinct assms(3))
  from writeSortOrder_pages[OF this, of 0 d] show ?thesis
    using assms(1,2) by (simp add: reorder_def positioned_def[abs_def])
qed

lemma filter_positioned:
  "filter (\<lambda>p. page_projectId p = i) (map (positioned S) ps) =
   map (positioned S) (filter (\<lambda>p. page_projectId p = i) ps)"
  by (simp add: filter_map o_def)

lemma rows_by_creation:
  "getPagesByProjectId ByCreation i (d\<lparr>db_pages := map (positioned S) (db_pages d)\<rparr>) =
   map (positioned S) (getPagesByProjectId ByCreation i d)"
  by (simp add: getPagesByProjectId_def filter_positioned)

lemma sorted_ints: "sorted (map int [0..<n])"
  by (induction n) (auto simp: sorted_append)

lemma rows_by_position:
  assumes "distinct (map page_id (db_pages d))" "S = sortedPages (getPagesByProjectId ro i d)"
  shows "getPagesByProjectId BySortOrder i (d\<lparr>db_pages := map (positioned S) (db_pages d)\<rparr>) =
         map (positioned S) S"
proof -
  let ?F = "filter (\<lambda>p. page_projectId p = i) (db_pages d)"
  have dS: "distinct (map page_id S)"
    unfolding assms(2) by (intro distinct_ids_sortedPages rows_distinct assms(1))
  have pos: "map page_sortOrder (map (positioned S) S) = map int [0..<length S]"
    by (rule positioned_sortOrders[OF dS])
  have m: "mset (map (positioned S) ?F) = mset (map (positioned S) S)"
    unfolding assms(2) by (simp add: rows_mset)
  have "distinct (map page_sortOrder (map (positioned S) S))"
    unfolding pos by (simp add: distinct_map)
  then have "inj_on page_sortOrder (set (map (positioned S) S))"
    by (simp only: distinct_map)
  then have inj: "inj_on page_sortOrder (set (map (positioned S) ?F))"
    using mset_eq_setD[OF m] by simp
  have so: "sorted (map page_sortOrder (map (positioned S) S))"
    unfolding pos by (rule sorted_ints)
  have "sort_key page_sortOrder (map (positioned S) ?F) = map (positioned S) S"
    by (rule sort_key_inj_key_eq[OF m inj so])
  then show ?thesis by (simp add: getPagesByProjectId_def filter_positioned)
qed

subsection \<open>The order of the pages\<close>



lemma mixed_hyps:
  "getProjectById 1 mixedDb = Some (ownProject 5 5)" "project_userId (ownProject 5 5) = 1"
  "distinct (map page_id (db_pages mixedDb))"
  "\<forall>p\<in>set (db_pages mixedDb). wfLabel (page_detectedPageNumber p)"
  by (simp_all add: db_defs example_defs wfLabel_def char_defs)





text \<open>
  C9. \<^verbatim>\<open>reorder\<close> is idempotent: on a project whose pages have distinct ids and labels as
  the extractor writes them, a second \<^verbatim>\<open>reorder\<close> on the state that a first one left returns
  the same and leaves that state, so every page keeps its sort position. This holds
  whether the storage layer returns the pages in the order of creation or by stored sort
  position.
\<close>

theorem reorder_idempotent:
  assumes "distinct (map page_id (db_pages d))"
    and "\<forall>p\<in>set (db_pages d). wfLabel (page_detectedPageNumber p)"
  shows "reorder ro userId projectId (snd (reorder ro userId projectId d)) =
         reorder ro userId projectId d"
proof (cases "\<exists>proj. getProjectById projectId d = Some proj \<and> project_userId proj = userId")
  case False
  then show ?thesis by (auto simp: reorder_def split: option.splits)
next
  case True
  then obtain proj where pr: "getProjectById projectId d = Some proj" "project_userId proj = userId"
    by blast
  let ?rows = "getPagesByProjectId ro projectId d"
  let ?S = "sortedPages ?rows"
  let ?d' = "d\<lparr>db_pages := map (positioned ?S) (db_pages d)\<rparr>"
  have r1: "reorder ro userId projectId d = (Inr True, ?d')"
    by (rule reorder_state[OF pr assms(1)])
  have pr': "getProjectById projectId ?d' = Some proj"
    using pr(1) by (simp add: getProjectById_def)
  have d': "distinct (map page_id (db_pages ?d'))"
    using assms(1) by (simp add: o_def)
  have wfrows: "\<forall>y\<in>set ?rows. wfLabel (page_detectedPageNumber y)"
    using assms(2) by (simp add: rows_set)
  have sk: "?S = sort_key sortRank ?rows"
    by (rule sortedPages_sort_key[OF wfrows])
  have fixd: "sortedPages ?S = ?S"
  proof -
    have "\<forall>y\<in>set ?S. wfLabel (page_detectedPageNumber y)"
      using wfrows unfolding sk by simp
    then have "sortedPages ?S = sort_key sortRank ?S" by (rule sortedPages_sort_key)
    also have "\<dots> = ?S"
      by (rule sort_key_id_if_sorted) (simp add: sk)
    finally show ?thesis .
  qed
  have S': "sortedPages (getPagesByProjectId ro projectId ?d') = map (positioned ?S) ?S"
  proof (cases ro)
    case ByCreation
    then show ?thesis
      using rows_by_creation[where i = projectId and d = d and S = "?S"] by (simp add: sortedPages_positioned)
  next
    case BySortOrder
    have "getPagesByProjectId BySortOrder projectId ?d' = map (positioned ?S) ?S"
      by (rule rows_by_position[OF assms(1) refl])
    then show ?thesis using fixd unfolding BySortOrder by (simp add: sortedPages_positioned)
  qed
  have r2: "reorder ro userId projectId ?d' =
              (Inr True, ?d'\<lparr>db_pages := map (positioned (map (positioned ?S) ?S)) (db_pages ?d')\<rparr>)"
    using reorder_state[OF pr' pr(2) d', of ro] unfolding S' .
  have "map (positioned (map (positioned ?S) ?S)) (db_pages ?d') = db_pages ?d'"
    by (simp add: positioned_again o_def)
  then have "?d'\<lparr>db_pages := map (positioned (map (positioned ?S) ?S)) (db_pages ?d')\<rparr> = ?d'"
    by simp
  then show ?thesis unfolding r1 using r2 by simp
qed

theorem reorder_idempotent_witness:
  "distinct (map page_id (db_pages mixedDb)) \<and>
   list_all (\<lambda>p. wfLabel (page_detectedPageNumber p)) (db_pages mixedDb) \<and>
   reorder BySortOrder 1 1 (snd (reorder BySortOrder 1 1 mixedDb)) = reorder BySortOrder 1 1 mixedDb \<and>
   reorder ByCreation 1 1 (snd (reorder ByCreation 1 1 mixedDb)) = reorder ByCreation 1 1 mixedDb \<and>
   map page_sortOrder (db_pages (snd (reorder BySortOrder 1 1 mixedDb))) = [3, 1, 2, 0, 4]"
proof -
  note a = reorder_idempotent[OF mixed_hyps(3,4), of BySortOrder 1 1]
  note b = reorder_idempotent[OF mixed_hyps(3,4), of ByCreation 1 1]
  have c: "map page_sortOrder (db_pages (snd (reorder BySortOrder 1 1 mixedDb))) = [3, 1, 2, 0, 4]"
    by (simp add: sort_defs db_defs example_defs char_defs)
  show ?thesis using mixed_hyps(3,4) a b c by (simp add: list_all_iff)
qed

end
